theory Spec2Isabelle
  imports Main "HOL-Library.Word" "HOL-Library.Sublist"
begin

section \<open>Strings and bytes of the platform\<close>

text \<open>
  A JavaScript string is a sequence of UTF-16 code units; a stream chunk is a
  \<open>Uint8Array\<close>, a sequence of bytes. The source file is written in Chinese; its string
  literals are given here by their code units, the ASCII runs through \<open>asc\<close>.
\<close>

type_synonym jsstring = "16 word list"
type_synonym bytes = "8 word list"

definition asc :: "string \<Rightarrow> jsstring" where
  "asc s = map of_char s"

text \<open>
  The code units that \<open>String.prototype.trim\<close> strips and that \<open>\s\<close> matches in a
  regular expression without the \<open>u\<close> flag: ECMAScript's WhiteSpace and LineTerminator
  (TAB, LF, VT, FF, CR, SP, NBSP, U+1680, U+2000..U+200A, LS, PS, U+202F, U+205F, U+3000,
  U+FEFF).
\<close>

definition isWhiteSpace :: "16 word \<Rightarrow> bool" where
  "isWhiteSpace c =
     (c = 0x09 \<or> c = 0x0A \<or> c = 0x0B \<or> c = 0x0C \<or> c = 0x0D \<or> c = 0x20 \<or> c = 0xA0
      \<or> c = 0x1680 \<or> (0x2000 \<le> c \<and> c \<le> 0x200A) \<or> c = 0x2028 \<or> c = 0x2029
      \<or> c = 0x202F \<or> c = 0x205F \<or> c = 0x3000 \<or> c = 0xFEFF)"

text \<open>\<open>s.trim()\<close>: white space is removed from both ends.\<close>

definition trim :: "jsstring \<Rightarrow> jsstring" where
  "trim s = rev (dropWhile isWhiteSpace (rev (dropWhile isWhiteSpace s)))"

text \<open>
  \<open>s.split(sep)\<close> for a separator that matches exactly one code unit (the string
  \<open>'\n'\<close>, or a character class): the pieces between the separators, in order. The
  result is never empty (the empty string splits into one empty piece), so a code unit
  that is no separator always joins the first piece of what follows.
\<close>

fun split_by :: "(16 word \<Rightarrow> bool) \<Rightarrow> jsstring \<Rightarrow> jsstring list" where
  "split_by sep [] = [[]]"
| "split_by sep (c # cs) =
     (if sep c then [] # split_by sep cs
      else (case split_by sep cs of
              [] \<Rightarrow> [[c]]
            | piece # pieces \<Rightarrow> (c # piece) # pieces))"

text \<open>\<open>xs.join(sep)\<close>.\<close>

fun join :: "jsstring \<Rightarrow> jsstring list \<Rightarrow> jsstring" where
  "join sep [] = []"
| "join sep [x] = x"
| "join sep (x # y # ys) = x @ sep @ join sep (y # ys)"

text \<open>
  The first occurrence of a pattern in a text: what stands before it and what
  stands after it.
\<close>

fun find_first :: "'a list \<Rightarrow> 'a list \<Rightarrow> ('a list \<times> 'a list) option" where
  "find_first pat [] = (if pat = [] then Some ([], []) else None)"
| "find_first pat (c # cs) =
     (if prefix pat (c # cs) then Some ([], drop (length pat) (c # cs))
      else map_option (\<lambda>(before, after). (c # before, after)) (find_first pat cs))"

section \<open>GeoGebraValidator\<close>

subsection \<open>The vocabulary\<close>

definition VALID_COMMANDS :: "jsstring set" where
  "VALID_COMMANDS = set (map asc
     [''Point'', ''Vector'', ''Segment'', ''Line'', ''Ray'', ''Circle'', ''Ellipse'',
      ''Polygon'', ''RegularPolygon'',
      ''Slope'', ''Function'', ''Curve'', ''ParametricCurve'', ''PolarCurve'',
      ''Slider'', ''StartAnimation'', ''SetAnimationSpeed'', ''SetConditionToShowObject'',
      ''SetTrace'', ''Locus'',
      ''Sequence'', ''List'', ''If'', ''Text'', ''RunClickScript'',
      ''Intersect'', ''Midpoint'', ''Distance'', ''Angle'', ''Area'', ''Perimeter'',
      ''Length'', ''Reflect'', ''Rotate'', ''Translate'', ''Dilate''])"

subsection \<open>validateCommand\<close>

text \<open>The character class \<open>[\(\s,]\<close> on which the command is split.\<close>

definition isSeparator :: "16 word \<Rightarrow> bool" where
  "isSeparator c = (c = 0x28 \<or> isWhiteSpace c \<or> c = 0x2C)"

text \<open>\<open>command.split(/[\(\s,]/)[0].trim()\<close>\<close>

definition commandName :: "jsstring \<Rightarrow> jsstring" where
  "commandName command = trim (hd (split_by isSeparator command))"

text \<open>
  The template literal of the error message: the code units U+672A U+77E5 U+7684,
  \<open>GeoGebra\<close>, U+547D U+4EE4, a colon and a space, then the command name.
\<close>

definition unknownCommandMessage :: "jsstring \<Rightarrow> jsstring" where
  "unknownCommandMessage n =
     [0x672A, 0x77E5, 0x7684] @ asc ''GeoGebra'' @ [0x547D, 0x4EE4] @ asc '': '' @ n"

record CommandResult =
  valid :: bool
  error :: "jsstring option"

definition validateCommand :: "jsstring \<Rightarrow> CommandResult" where
  "validateCommand command =
     (let name = commandName command in
      if name \<notin> VALID_COMMANDS
      then \<lparr>valid = False, error = Some (unknownCommandMessage name)\<rparr>
      else \<lparr>valid = True, error = None\<rparr>)"

subsection \<open>validateCommands\<close>

record ValidationResult =
  isValid :: bool
  errors :: "jsstring list"

text \<open>
  The \<open>for\<close> loop over the commands, with the array \<open>errors\<close> it pushes to. The test
  \<open>!result.isValid && result.error\<close> asks for an error string that is present and not
  empty.
\<close>

fun validateLoop :: "jsstring list \<Rightarrow> jsstring list \<Rightarrow> jsstring list" where
  "validateLoop [] errs = errs"
| "validateLoop (command # rest) errs =
     (let result = validateCommand command in
      case error result of
        Some e \<Rightarrow>
          if \<not> valid result \<and> e \<noteq> [] then validateLoop rest (errs @ [e])
          else validateLoop rest errs
      | None \<Rightarrow> validateLoop rest errs)"

definition validateCommands :: "jsstring list \<Rightarrow> ValidationResult" where
  "validateCommands commands =
     (let errs = validateLoop commands [] in \<lparr>isValid = (length errs = 0), errors = errs\<rparr>)"

subsection \<open>extractCommands\<close>

text \<open>
  The regular expression is \<open>/```geogebra\n([\s\S]*?)```/g\<close>: the opening fence with
  its line break, then as few code units as possible (of any kind), then three backticks.
\<close>

definition fence :: jsstring where
  "fence = asc ''```''"

definition opener :: jsstring where
  "opener = asc ''```geogebra'' @ [0x0A]"

text \<open>
  One \<open>regex.exec\<close> on the text that is left after \<open>lastIndex\<close>: the leftmost position
  at which the whole expression matches. At a position where the opening fence stands,
  the lazy group ends at the nearest three backticks behind it; where there are none the
  expression fails there and the next position is tried. The result is the captured
  group and the text behind the match, from which the next \<open>exec\<close> goes on.
\<close>

fun regexExec :: "jsstring \<Rightarrow> (jsstring \<times> jsstring) option" where
  "regexExec [] = None"
| "regexExec (c # cs) =
     (if prefix opener (c # cs)
      then (case find_first fence (drop (length opener) (c # cs)) of
              Some m \<Rightarrow> Some m
            | None \<Rightarrow> regexExec cs)
      else regexExec cs)"

text \<open>
  \<open>commandBlock.split('\n').map(line => line.trim()).filter(line => line.length > 0)\<close>
\<close>

definition commandLines :: "jsstring \<Rightarrow> jsstring list" where
  "commandLines commandBlock =
     filter (\<lambda>line. length line > 0) (map trim (split_by (\<lambda>c. c = 0x0A) commandBlock))"

text \<open>
  The specification's word for a line that gives no command: a blank line, or one of
  white space only.
\<close>

definition blankLine :: "jsstring \<Rightarrow> bool" where
  "blankLine line = list_all isWhiteSpace line"

lemma find_first_shorter:
  "find_first pat s = Some (before, after) \<Longrightarrow> pat \<noteq> [] \<Longrightarrow> length after < length s"
proof (induction s arbitrary: before)
  case Nil
  then show ?case by simp
next
  case (Cons c cs)
  show ?case
  proof (cases "prefix pat (c # cs)")
    case True
    with Cons.prems show ?thesis by (cases pat) auto
  next
    case False
    with Cons.prems obtain b where "find_first pat cs = Some (b, after)"
      by (auto split: prod.splits)
    with Cons.IH Cons.prems(2) show ?thesis by fastforce
  qed
qed

lemma regexExec_shorter:
  "regexExec s = Some (block, rest) \<Longrightarrow> length rest < length s"
proof (induction s)
  case Nil
  then show ?case by simp
next
  case (Cons c cs)
  show ?case
  proof (cases "prefix opener (c # cs)")
    case True
    show ?thesis
    proof (cases "find_first fence (drop (length opener) (c # cs))")
      case None
      with True Cons show ?thesis by simp
    next
      case (Some m)
      with True Cons.prems have "find_first fence (drop (length opener) (c # cs)) = Some (block, rest)"
        by simp
      then have "length rest < length (drop (length opener) (c # cs))"
        by (rule find_first_shorter) (simp add: fence_def asc_def)
      then show ?thesis by simp
    qed
  next
    case False
    with Cons show ?thesis by simp
  qed
qed

text \<open>The \<open>while\<close> loop around \<open>regex.exec\<close>, pushing each block's lines.\<close>

function extractLoop :: "jsstring \<Rightarrow> jsstring list \<Rightarrow> jsstring list" where
  "extractLoop text commands =
     (case regexExec text of
        None \<Rightarrow> commands
      | Some (commandBlock, rest) \<Rightarrow> extractLoop rest (commands @ commandLines commandBlock))"
  by pat_completeness auto
termination
  by (relation "measure (\<lambda>(text, commands). length text)") (auto dest: regexExec_shorter)

definition extractCommands :: "jsstring \<Rightarrow> jsstring list" where
  "extractCommands text = extractLoop text []"

section \<open>The stream annotator\<close>

subsection \<open>TextDecoder and TextEncoder\<close>

text \<open>
  \<open>new TextDecoder().decode(chunk)\<close> is the platform's UTF-8 decoder with its default
  options: an ill-formed sequence gives U+FFFD and decoding goes on with the byte that
  broke it, an unfinished sequence at the end of the chunk gives U+FFFD, and a byte
  order mark at the start is dropped. A lead byte fixes how many bytes follow, the bits
  it brings and the range allowed for the next byte.
\<close>

definition utf8Lead :: "nat \<Rightarrow> (nat \<times> nat \<times> nat \<times> nat) option" where
  "utf8Lead b =
     (if 0xC2 \<le> b \<and> b \<le> 0xDF then Some (1, b mod 32, 0x80, 0xBF)
      else if 0xE0 \<le> b \<and> b \<le> 0xEF
        then Some (2, b mod 16, if b = 0xE0 then 0xA0 else 0x80, if b = 0xED then 0x9F else 0xBF)
      else if 0xF0 \<le> b \<and> b \<le> 0xF4
        then Some (3, b mod 8, if b = 0xF0 then 0x90 else 0x80, if b = 0xF4 then 0x8F else 0xBF)
      else None)"

fun utf8Start :: "nat list \<Rightarrow> nat list"
  and utf8Cont :: "nat \<Rightarrow> nat \<Rightarrow> nat \<Rightarrow> nat \<Rightarrow> nat list \<Rightarrow> nat list" where
  "utf8Start [] = []"
| "utf8Start (b # bs) =
     (if b \<le> 0x7F then b # utf8Start bs
      else (case utf8Lead b of
              None \<Rightarrow> 0xFFFD # utf8Start bs
            | Some (needed, cp, lower, upper) \<Rightarrow> utf8Cont needed cp lower upper bs))"
| "utf8Cont needed cp lower upper [] = [0xFFFD]"
| "utf8Cont needed cp lower upper (b # bs) =
     (if b < lower \<or> upper < b then 0xFFFD # utf8Start (b # bs)
      else if needed \<le> 1 then (cp * 64 + b mod 64) # utf8Start bs
      else utf8Cont (needed - 1) (cp * 64 + b mod 64) 0x80 0xBF bs)"

text \<open>A code point as UTF-16: itself, or a surrogate pair above the basic plane.\<close>

definition utf16 :: "nat \<Rightarrow> jsstring" where
  "utf16 cp =
     (if cp < 0x10000 then [of_nat cp]
      else [of_nat (0xD800 + (cp - 0x10000) div 1024), of_nat (0xDC00 + (cp - 0x10000) mod 1024)])"

definition dropBOM :: "nat list \<Rightarrow> nat list" where
  "dropBOM cps = (case cps of [] \<Rightarrow> [] | cp # rest \<Rightarrow> if cp = 0xFEFF then rest else cps)"

definition TextDecoder_decode :: "bytes \<Rightarrow> jsstring" where
  "TextDecoder_decode chunk = concat (map utf16 (dropBOM (utf8Start (map unat chunk))))"

text \<open>
  \<open>new TextEncoder().encode(s)\<close>: the code points of the string, a surrogate without
  its partner read as U+FFFD, each written in UTF-8.
\<close>

fun codePoints :: "jsstring \<Rightarrow> nat list" where
  "codePoints [] = []"
| "codePoints [c] = [if 0xD800 \<le> c \<and> c \<le> 0xDFFF then 0xFFFD else unat c]"
| "codePoints (c # d # ds) =
     (if 0xD800 \<le> c \<and> c \<le> 0xDBFF
      then (if 0xDC00 \<le> d \<and> d \<le> 0xDFFF
            then (0x10000 + (unat c - 0xD800) * 1024 + (unat d - 0xDC00)) # codePoints ds
            else 0xFFFD # codePoints (d # ds))
      else if 0xDC00 \<le> c \<and> c \<le> 0xDFFF then 0xFFFD # codePoints (d # ds)
      else unat c # codePoints (d # ds))"

definition utf8Bytes :: "nat \<Rightarrow> bytes" where
  "utf8Bytes cp =
     (if cp < 0x80 then [of_nat cp]
      else if cp < 0x800 then [of_nat (0xC0 + cp div 64), of_nat (0x80 + cp mod 64)]
      else if cp < 0x10000
        then [of_nat (0xE0 + cp div 4096), of_nat (0x80 + cp div 64 mod 64),
              of_nat (0x80 + cp mod 64)]
      else [of_nat (0xF0 + cp div 262144), of_nat (0x80 + cp div 4096 mod 64),
            of_nat (0x80 + cp div 64 mod 64), of_nat (0x80 + cp mod 64)])"

definition TextEncoder_encode :: "jsstring \<Rightarrow> bytes" where
  "TextEncoder_encode s = concat (map utf8Bytes (codePoints s))"

subsection \<open>transform\<close>

text \<open>
  The warning's template literal: two line breaks, the warning sign U+26A0 U+FE0F, a
  Chinese sentence that announces invalid GeoGebra commands, a line break, the errors
  joined by line breaks, a line break and a Chinese sentence that asks to check the
  commands.
\<close>

definition warningText :: "jsstring list \<Rightarrow> jsstring" where
  "warningText errs =
     [0x0A, 0x0A, 0x26A0, 0xFE0F, 0x20, 0x8B66, 0x544A, 0xFF1A, 0x53D1, 0x73B0, 0x4EE5, 0x4E0B,
      0x65E0, 0x6548, 0x7684] @ asc ''GeoGebra'' @ [0x547D, 0x4EE4, 0xFF1A, 0x0A]
     @ join [0x0A] errs
     @ [0x0A, 0x8BF7, 0x68C0, 0x67E5, 0x547D, 0x4EE4, 0x662F, 0x5426, 0x6B63, 0x786E, 0x3002]"

text \<open>
  The transformer's \<open>transform(chunk, controller)\<close>; the result is what it enqueues on
  the controller, in order.
\<close>

definition transform :: "bytes \<Rightarrow> bytes list" where
  "transform chunk =
     (let text = TextDecoder_decode chunk;
          commands = extractCommands text
      in (if length commands > 0
          then (let validation = validateCommands commands
                in if \<not> isValid validation
                   then [TextEncoder_encode (warningText (errors validation))]
                   else [])
          else [])
         @ [chunk])"

section \<open>The request handler\<close>

subsection \<open>The request\<close>

text \<open>
  The body of the request is what \<open>req.json()\<close> gives, read with the shapes that the
  repository declares for it (\<open>ConfigSettings\<close>, \<open>ModelConfig\<close>, \<open>ApiConfig\<close>). No
  property is sure to be there: an absent one (\<open>undefined\<close> or \<open>null\<close>) is \<open>None\<close>. The
  handler never reads the \<open>modelType\<close> of a custom model; it is \<open>entryModelType\<close> here,
  apart from the \<open>modelType\<close> of the settings. The \<open>messages\<close> of a body, where there
  are any, are a list of messages or a value of another kind: a string, a number, a
  boolean or an object (a number and an object are kept as their JSON text). The handler
  reads \<open>messages.length\<close> and hands the value to \<open>streamText\<close> as it is.
\<close>

record ApiConfig =
  domain :: "jsstring option"
  path :: "jsstring option"
  key :: "jsstring option"

record ModelConfig =
  name :: "jsstring option"
  provider :: "jsstring option"
  entryModelType :: "jsstring option"
  apiConfig :: "ApiConfig option"

record ConfigSettings =
  modelType :: "jsstring option"
  systemPrompt :: "jsstring option"
  customModels :: "ModelConfig list option"

type_synonym message = "jsstring \<times> jsstring"

datatype other_value =
  StringValue jsstring
| NumberValue jsstring
| BooleanValue bool
| ObjectValue jsstring

datatype messages_value =
  MessageList "message list"
| NotAList other_value

record RequestBody =
  messages :: "messages_value option"
  configSettings :: "ConfigSettings option"

text \<open>\<open>process.env\<close>\<close>

type_synonym env = "jsstring \<Rightarrow> jsstring option"

subsection \<open>The response\<close>

type_synonym header = "jsstring \<times> jsstring"

datatype response_body =
  Json_error jsstring
| Stream "bytes list"

record Response =
  status :: nat
  headers :: "header list"
  body :: response_body

text \<open>
  \<open>new Response(JSON.stringify({ error: message }), { status, headers: { "Content-Type":
  "application/json" } })\<close>
\<close>

definition errorResponse :: "nat \<Rightarrow> jsstring \<Rightarrow> Response" where
  "errorResponse code message =
     \<lparr>status = code, headers = [(asc ''Content-Type'', asc ''application/json'')],
      body = Json_error message\<rparr>"

subsection \<open>The provider packages\<close>

text \<open>
  The packages \<open>@ai-sdk/openai\<close>, \<open>@ai-sdk/anthropic\<close>, \<open>@ai-sdk/deepseek\<close> and \<open>ai\<close>
  are not part of the repository. The handler is modelled over any behaviour of theirs:
  \<open>createProvider k\<close> stands for \<open>createOpenAI\<close>, \<open>createAnthropic\<close> or
  \<open>createDeepSeek\<close>, called with \<open>apiKey\<close> and \<open>baseURL\<close>; \<open>languageModel\<close> for the call
  \<open>the_model(modelType)\<close>; \<open>streamText\<close> for \<open>streamText({ model, system, messages })\<close>
  followed by \<open>toDataStreamResponse\<close>, whose response has headers and a body of chunks. A
  result \<open>None\<close> is a call that throws. The handler's calls are recorded in order.
\<close>

datatype adapter = OpenAI | Anthropic | DeepSeek

record upstream =
  responseHeaders :: "header list"
  responseBody :: "bytes list"

record ('p, 'm) sdk =
  createProvider :: "adapter \<Rightarrow> jsstring option \<Rightarrow> jsstring option \<Rightarrow> 'p option"
  languageModel :: "'p \<Rightarrow> jsstring \<Rightarrow> 'm option"
  streamText :: "'m \<Rightarrow> jsstring \<Rightarrow> messages_value \<Rightarrow> upstream option"

datatype sdk_call =
  CreateProvider adapter "jsstring option" "jsstring option"
| LanguageModel jsstring
| StreamText jsstring messages_value

subsection \<open>POST\<close>

text \<open>\<open>value || fallback\<close> on a string that may be absent: an empty string is falsy.\<close>

definition orElse :: "jsstring option \<Rightarrow> jsstring \<Rightarrow> jsstring" where
  "orElse v fallback = (case v of None \<Rightarrow> fallback | Some s \<Rightarrow> if s = [] then fallback else s)"

definition falsy :: "jsstring option \<Rightarrow> bool" where
  "falsy v = (case v of None \<Rightarrow> True | Some s \<Rightarrow> s = [])"

definition defaultSystemPrompt :: jsstring where
  "defaultSystemPrompt =
     [0x4F60, 0x662F, 0x4E00, 0x4E2A, 0x4E13, 0x6CE8, 0x4E8E, 0x6570, 0x5B66, 0x548C]
     @ asc ''GeoGebra''
     @ [0x7684, 0x52A9, 0x624B, 0x3002, 0x5E2E, 0x52A9, 0x7528, 0x6237, 0x7406, 0x89E3, 0x6570,
        0x5B66, 0x6982, 0x5FF5, 0x5E76, 0x4F7F, 0x7528]
     @ asc ''GeoGebra''
     @ [0x8FDB, 0x884C, 0x53EF, 0x89C6, 0x5316, 0x3002, 0x8BF7, 0x786E, 0x4FDD, 0x53EA, 0x4F7F,
        0x7528, 0x6709, 0x6548, 0x7684]
     @ asc ''GeoGebra'' @ [0x547D, 0x4EE4, 0x3002]"

text \<open>The messages of the error responses, in the order of the source.\<close>

definition openRouterEnvMessage :: jsstring where
  "openRouterEnvMessage =
     [0x672A, 0x8BBE, 0x7F6E] @ asc ''OPENROUTER_API_KEY''
     @ [0x73AF, 0x5883, 0x53D8, 0x91CF, 0x3002, 0x8BF7, 0x5728] @ asc ''Vercel''
     @ [0x9879, 0x76EE, 0x8BBE, 0x7F6E, 0x4E2D, 0x6DFB, 0x52A0, 0x6B64, 0x73AF, 0x5883, 0x53D8,
        0x91CF, 0xFF0C, 0x6216, 0x5728, 0x8BBE, 0x7F6E, 0x9875, 0x9762, 0x914D, 0x7F6E, 0x81EA,
        0x5B9A, 0x4E49]
     @ asc ''API'' @ [0x5BC6, 0x94A5, 0x3002]"

definition openRouterKeyMessage :: jsstring where
  "openRouterKeyMessage =
     [0x7F3A, 0x5C11] @ asc ''OpenRouter API'' @ [0x5BC6, 0x94A5, 0x3002, 0x8BF7, 0x5728]
     @ asc ''Vercel'' @ [0x9879, 0x76EE, 0x8BBE, 0x7F6E, 0x4E2D, 0x6DFB, 0x52A0]
     @ asc ''OPENROUTER_API_KEY''
     @ [0x73AF, 0x5883, 0x53D8, 0x91CF, 0xFF0C, 0x6216, 0x5728, 0x8BBE, 0x7F6E, 0x9875, 0x9762,
        0x914D, 0x7F6E, 0x81EA, 0x5B9A, 0x4E49]
     @ asc ''API'' @ [0x5BC6, 0x94A5, 0x3002]"

definition missingKeyMessage :: jsstring where
  "missingKeyMessage =
     [0x9700, 0x8981] @ asc ''API''
     @ [0x5BC6, 0x94A5, 0xFF0C, 0x8BF7, 0x5728, 0x8BBE, 0x7F6E, 0x4E2D, 0x914D, 0x7F6E, 0x5BF9,
        0x5E94, 0x6A21, 0x578B, 0x7684]
     @ asc ''API'' @ [0x5BC6, 0x94A5]"

definition initFailedMessage :: jsstring where
  "initFailedMessage =
     [0x521D, 0x59CB, 0x5316, 0x6A21, 0x578B, 0x5931, 0x8D25, 0xFF0C, 0x8BF7, 0x68C0, 0x67E5]
     @ asc ''API'' @ [0x5BC6, 0x94A5, 0x548C, 0x6A21, 0x578B, 0x914D, 0x7F6E]"

definition streamFailedMessage :: jsstring where
  "streamFailedMessage =
     [0x521B, 0x5EFA, 0x804A, 0x5929, 0x6D41, 0x5931, 0x8D25, 0xFF0C, 0x8BF7, 0x68C0, 0x67E5,
      0x7F51, 0x7EDC, 0x8FDE, 0x63A5]"

definition requestFailedMessage :: jsstring where
  "requestFailedMessage =
     [0x5904, 0x7406, 0x8BF7, 0x6C42, 0x65F6, 0x53D1, 0x751F, 0x9519, 0x8BEF]"

text \<open>
  Resolving the \<open>apiConfig\<close> goes on with a value, returns a response, or throws.
\<close>

datatype 'a step = Continue 'a | Return Response | Throw

text \<open>
  The table \<open>builtInConfigs\<close> is an object literal indexed by the model identifier, so an
  identifier that names a property of \<open>Object.prototype\<close> finds that inherited property:
  a function or an object, truthy, with no \<open>domain\<close>, \<open>path\<close> or \<open>key\<close>.
\<close>

definition objectPrototypeNames :: "jsstring list" where
  "objectPrototypeNames = map asc
     [''constructor'', ''__defineGetter__'', ''__defineSetter__'', ''hasOwnProperty'',
      ''__lookupGetter__'', ''__lookupSetter__'', ''isPrototypeOf'', ''propertyIsEnumerable'',
      ''toString'', ''valueOf'', ''__proto__'', ''toLocaleString'']"

definition gpt4oConfig :: "env \<Rightarrow> ApiConfig" where
  "gpt4oConfig env =
     \<lparr>domain = Some (asc ''https://api.openai.com''),
      path = Some (asc ''/v1/chat/completions''),
      key = Some (orElse (env (asc ''OPENAI_API_KEY'')) [])\<rparr>"

definition builtInConfig :: "env \<Rightarrow> jsstring \<Rightarrow> ApiConfig" where
  "builtInConfig env model =
     (if model = asc ''gpt-4o'' then gpt4oConfig env
      else if model = asc ''claude-3-opus''
        then \<lparr>domain = Some (asc ''https://api.anthropic.com''),
              path = Some (asc ''/v1/messages''),
              key = Some (orElse (env (asc ''ANTHROPIC_API_KEY'')) [])\<rparr>
      else if model = asc ''deepseek-chat''
        then \<lparr>domain = Some (asc ''https://api.deepseek.com''),
              path = Some (asc ''/v1/chat/completions''),
              key = Some (orElse (env (asc ''DEEPSEEK_API_KEY'')) [])\<rparr>
      else if model \<in> set objectPrototypeNames
        then \<lparr>domain = None, path = None, key = None\<rparr>
      else gpt4oConfig env)"

text \<open>
  \<open>configSettings?.modelType || "gpt-4o"\<close> and \<open>configSettings?.systemPrompt ||\<close> the
  default prompt.
\<close>

definition requestedModel :: "ConfigSettings option \<Rightarrow> jsstring" where
  "requestedModel settings =
     orElse (case settings of None \<Rightarrow> None | Some cs \<Rightarrow> modelType cs) (asc ''gpt-4o'')"

definition requestedPrompt :: "ConfigSettings option \<Rightarrow> jsstring" where
  "requestedPrompt settings =
     orElse (case settings of None \<Rightarrow> None | Some cs \<Rightarrow> systemPrompt cs) defaultSystemPrompt"

text \<open>
  \<open>configSettings?.customModels?.find(model => model.name === modelType)\<close>: the first
  entry of that name, if the settings and the list are there.
\<close>

definition findCustomModel :: "ConfigSettings option \<Rightarrow> jsstring \<Rightarrow> ModelConfig option" where
  "findCustomModel settings model =
     (case settings of
        None \<Rightarrow> None
      | Some cs \<Rightarrow>
          (case customModels cs of
             None \<Rightarrow> None
           | Some ms \<Rightarrow> find (\<lambda>m. name m = Some model) ms))"

text \<open>
  Lines 32 to 88: the \<open>apiConfig\<close> of the request. For a custom model the key is read as
  \<open>customModel.apiConfig.key\<close>, with no \<open>?.\<close>, which throws where the entry has no
  \<open>apiConfig\<close>.
\<close>

definition resolveApiConfig :: "env \<Rightarrow> ModelConfig option \<Rightarrow> jsstring \<Rightarrow> ApiConfig step" where
  "resolveApiConfig env customModel model =
     (case customModel of
        Some cm \<Rightarrow>
          (case apiConfig cm of
             None \<Rightarrow> Throw
           | Some ac \<Rightarrow>
               (let cfg = \<lparr>domain = Some (orElse (domain ac) (asc ''https://api.openai.com'')),
                           path = Some (orElse (path ac) (asc ''/v1/chat/completions'')),
                           key = Some (orElse (key ac) [])\<rparr>
                in if key cfg = Some (asc ''OPENROUTER_API_KEY_PLACEHOLDER'')
                   then (if falsy (env (asc ''OPENROUTER_API_KEY''))
                         then Return (errorResponse 400 openRouterEnvMessage)
                         else Continue
                                (cfg\<lparr>key := Some (orElse (env (asc ''OPENROUTER_API_KEY'')) [])\<rparr>))
                   else Continue cfg))
      | None \<Rightarrow> Continue (builtInConfig env model))"

text \<open>Lines 106 to 146: which provider package builds the adapter.\<close>

definition selectAdapter :: "ModelConfig option \<Rightarrow> jsstring \<Rightarrow> adapter" where
  "selectAdapter customModel model =
     (case customModel of
        Some cm \<Rightarrow>
          (if provider cm = Some (asc ''anthropic'') then Anthropic
           else if provider cm = Some (asc ''deepseek'') then DeepSeek
           else OpenAI)
      | None \<Rightarrow>
          (if prefix (asc ''claude'') model then Anthropic
           else if prefix (asc ''deepseek'') model then DeepSeek
           else OpenAI))"

text \<open>
  Lines 90 to 206, from the resolved \<open>apiConfig\<close> on: the key check, the adapter in its
  own \<open>try\<close>, the model, and the stream in its own \<open>try\<close>. The result is the response
  that is returned, or \<open>None\<close> where an exception leaves for the outer \<open>catch\<close>, and
  the calls made. The stream's chunks pass through \<open>transform\<close> one by one; the headers
  are those of the upstream response and the status is the default 200.
\<close>

definition respond ::
  "('p, 'm) sdk \<Rightarrow> ModelConfig option \<Rightarrow> jsstring \<Rightarrow> jsstring \<Rightarrow> messages_value \<Rightarrow> ApiConfig
     \<Rightarrow> Response option \<times> sdk_call list" where
  "respond sdk customModel model prompt msgs cfg =
     (if falsy (key cfg)
      then (Some (errorResponse 400
                      (if model = asc ''deepseek-free'' then openRouterKeyMessage
                       else missingKeyMessage)), [])
      else
        (let kind = selectAdapter customModel model;
             c1 = [CreateProvider kind (key cfg) (domain cfg)]
         in case createProvider sdk kind (key cfg) (domain cfg) of
              None \<Rightarrow> (Some (errorResponse 500 initFailedMessage), c1)
            | Some the_model \<Rightarrow>
                (let c2 = c1 @ [LanguageModel model]
                 in case languageModel sdk the_model model of
                      None \<Rightarrow> (None, c2)
                    | Some m \<Rightarrow>
                        (let c3 = c2 @ [StreamText prompt msgs]
                         in case streamText sdk m prompt msgs of
                              None \<Rightarrow> (Some (errorResponse 500 streamFailedMessage), c3)
                            | Some up \<Rightarrow>
                                (Some \<lparr>status = 200, headers = responseHeaders up,
                                         body = Stream (concat (map transform (responseBody up)))\<rparr>,
                                 c3)))))"

text \<open>
  The body of the outer \<open>try\<close>. Reading \<open>messages.length\<close> for the log throws where
  \<open>messages\<close> is \<open>undefined\<close> or \<open>null\<close>, and only there: a list has a length, and so has
  a string, and on a number, a boolean or an object the property is read without a
  throw, whatever it gives.
\<close>

definition handle ::
  "('p, 'm) sdk \<Rightarrow> env \<Rightarrow> RequestBody \<Rightarrow> Response option \<times> sdk_call list" where
  "handle sdk env reqBody =
     (case messages reqBody of
        None \<Rightarrow> (None, [])
      | Some msgs \<Rightarrow>
          (let settings = configSettings reqBody;
               model = requestedModel settings;
               prompt = requestedPrompt settings;
               customModel = findCustomModel settings model
           in case resolveApiConfig env customModel model of
                Throw \<Rightarrow> (None, [])
              | Return r \<Rightarrow> (Some r, [])
              | Continue cfg \<Rightarrow> respond sdk customModel model prompt msgs cfg))"

text \<open>
  The handler. The request's body is \<open>None\<close> where \<open>req.json()\<close> rejects (the body is
  not JSON, or it is no object to take \<open>messages\<close> from). Whatever is thrown inside the
  outer \<open>try\<close> ends in its \<open>catch\<close>, which answers 500 with one fixed message.
\<close>

definition POST ::
  "('p, 'm) sdk \<Rightarrow> env \<Rightarrow> RequestBody option \<Rightarrow> Response \<times> sdk_call list" where
  "POST sdk env req =
     (case req of
        None \<Rightarrow> (errorResponse 500 requestFailedMessage, [])
      | Some reqBody \<Rightarrow>
          (case handle sdk env reqBody of
             (None, calls) \<Rightarrow> (errorResponse 500 requestFailedMessage, calls)
           | (Some r, calls) \<Rightarrow> (r, calls)))"

section \<open>Notions and sample inputs of the statements\<close>

text \<open>Three chunks: one with an unknown command, one with a known command, one with none.\<close>

definition barChunk :: bytes where
  "barChunk = map of_char (''```geogebra'' @ [CHR 0x0A] @ ''Bar(1)'' @ [CHR 0x0A] @ ''```'')"

definition pointChunk :: bytes where
  "pointChunk = map of_char (''```geogebra'' @ [CHR 0x0A] @ ''Point(1,2)'' @ [CHR 0x0A] @ ''```'')"

definition plainChunk :: bytes where
  "plainChunk = map of_char ''Hello''"

text \<open>
  For the statements: the adapter that a run of the handler built, read off its first
  call; a request with the \<open>path\<close> of every custom model erased; and sample provider
  packages, environments and requests.
\<close>

definition constructedAdapter :: "sdk_call list \<Rightarrow> adapter option" where
  "constructedAdapter calls =
     (case calls of CreateProvider kind apiKey baseURL # rest \<Rightarrow> Some kind | _ \<Rightarrow> None)"

definition eraseModelPath :: "ModelConfig \<Rightarrow> ModelConfig" where
  "eraseModelPath m = m\<lparr>apiConfig := map_option (\<lambda>ac. ac\<lparr>path := None\<rparr>) (apiConfig m)\<rparr>"

definition erasePaths :: "RequestBody \<Rightarrow> RequestBody" where
  "erasePaths reqBody =
     reqBody\<lparr>configSettings :=
       map_option (\<lambda>cs. cs\<lparr>customModels := map_option (map eraseModelPath) (customModels cs)\<rparr>)
         (configSettings reqBody)\<rparr>"

definition sdk0 :: "(unit, unit) sdk" where
  "sdk0 = \<lparr>createProvider = (\<lambda>kind apiKey baseURL. Some ()),
           languageModel = (\<lambda>the_model model. Some ()),
           streamText = (\<lambda>model prompt msgs. Some \<lparr>responseHeaders = [], responseBody = []\<rparr>)\<rparr>"

definition env0 :: env where
  "env0 = (\<lambda>variable. None)"

definition envTest :: env where
  "envTest = (\<lambda>variable. if variable = asc ''OPENROUTER_API_KEY'' then Some (asc ''sk-test'') else None)"

definition envOpenAI :: env where
  "envOpenAI = (\<lambda>variable. if variable = asc ''OPENAI_API_KEY'' then Some (asc ''sk-test'') else None)"

definition xRequest :: "ApiConfig option \<Rightarrow> jsstring option \<Rightarrow> RequestBody" where
  "xRequest config providerName =
     \<lparr>messages = Some (MessageList [(asc ''user'', asc ''draw a circle'')]),
      configSettings = Some
        \<lparr>modelType = Some (asc ''claude-x''), systemPrompt = None,
         customModels = Some
           [\<lparr>name = Some (asc ''claude-x''), provider = providerName,
             entryModelType = Some (asc ''x''), apiConfig = config\<rparr>]\<rparr>\<rparr>"


definition anthropicRequest :: RequestBody where
  "anthropicRequest =
     \<lparr>messages = Some (MessageList [(asc ''user'', asc ''draw a circle'')]),
      configSettings = Some
        \<lparr>modelType = Some (asc ''anthropic-x''), systemPrompt = None, customModels = None\<rparr>\<rparr>"

section \<open>Properties of the validator\<close>

lemma split_by_nonempty: "split_by sep s \<noteq> []"
  by (induction s) (auto split: list.splits)

lemma hd_split_by: "hd (split_by sep s) = takeWhile (\<lambda>c. \<not> sep c) s"
  by (induction s) (auto split: list.splits simp: split_by_nonempty)

lemma trim_no_white:
  assumes "\<forall>c \<in> set s. \<not> isWhiteSpace c"
  shows "trim s = s"
proof -
  have a: "dropWhile isWhiteSpace s = s"
    using assms by (cases s) auto
  have "\<forall>c \<in> set (rev s). \<not> isWhiteSpace c"
    using assms by simp
  then have b: "dropWhile isWhiteSpace (rev s) = rev s"
    by (cases "rev s") auto
  show ?thesis
    by (simp add: trim_def a b)
qed

text \<open>
  The first piece of the split holds no white space, so trimming it changes nothing: the
  name is what stands before the first separator.
\<close>

lemma commandName_takeWhile:
  "commandName command = takeWhile (\<lambda>c. \<not> isSeparator c) command"
proof -
  have "\<forall>c \<in> set (takeWhile (\<lambda>c. \<not> isSeparator c) command). \<not> isWhiteSpace c"
    by (auto dest: set_takeWhileD simp: isSeparator_def)
  then show ?thesis
    by (simp add: commandName_def hd_split_by trim_no_white)
qed

lemma validateLoop_append:
  "validateLoop commands errs =
     errs @ map (\<lambda>c. unknownCommandMessage (commandName c))
              (filter (\<lambda>c. commandName c \<notin> VALID_COMMANDS) commands)"
  by (induction commands arbitrary: errs)
     (simp_all add: validateCommand_def unknownCommandMessage_def Let_def)

lemma commandName_Foo: "commandName (asc ''Foo(1,2)'') = asc ''Foo''"
  by (simp add: commandName_takeWhile asc_def isSeparator_def isWhiteSpace_def)

lemma Foo_unknown: "asc ''Foo'' \<notin> VALID_COMMANDS"
  by (simp add: VALID_COMMANDS_def asc_def)

lemma commandName_Circle: "commandName (asc ''Circle((0,0), 1)'') = asc ''Circle''"
  by (simp add: commandName_takeWhile asc_def isSeparator_def isWhiteSpace_def)

lemma Circle_known: "asc ''Circle'' \<in> VALID_COMMANDS"
  by (simp add: VALID_COMMANDS_def asc_def)

text \<open>
  C5, as the claim states it, at its own example. The claim gives the message as
  \<open>unknown command: Foo\<close>; the validator answers with the text of its template literal,
  which is Chinese. This is the claim's result, refuted.
\<close>

theorem validateCommand_name_counterexample:
  "validateCommands [asc ''Foo(1,2)'']
     \<noteq> \<lparr>isValid = False, errors = [asc ''unknown command: Foo'']\<rparr>"
  by (simp add: validateCommands_def validateCommand_def Let_def commandName_Foo Foo_unknown)
     (simp add: unknownCommandMessage_def asc_def)

text \<open>
  C5, amended. The command name is the part of the command before the first opening
  parenthesis, white-space code unit or comma (trimming it changes nothing). A name that
  is in the vocabulary, compared code unit by code unit, is valid and carries no error.
  Any other name is invalid, and the error is the template's text (U+672A U+77E5 U+7684
  \<open>GeoGebra\<close> U+547D U+4EE4, colon, space) followed by the name. Validating the one
  command \<open>Foo(1,2)\<close> gives \<open>isValid = false\<close> and that text followed by \<open>Foo\<close> as the
  only error.
\<close>

theorem validateCommand_name:
  "commandName command
     = takeWhile (\<lambda>c. c \<noteq> 0x28 \<and> \<not> isWhiteSpace c \<and> c \<noteq> 0x2C) command
   \<and> (commandName command \<in> VALID_COMMANDS \<longrightarrow>
        validateCommand command = \<lparr>valid = True, error = None\<rparr>)
   \<and> (commandName command \<notin> VALID_COMMANDS \<longrightarrow>
        validateCommand command =
          \<lparr>valid = False,
           error = Some ([0x672A, 0x77E5, 0x7684] @ asc ''GeoGebra'' @ [0x547D, 0x4EE4]
                         @ asc '': '' @ commandName command)\<rparr>)
   \<and> validateCommands [asc ''Foo(1,2)''] =
        \<lparr>isValid = False,
         errors = [[0x672A, 0x77E5, 0x7684] @ asc ''GeoGebra'' @ [0x547D, 0x4EE4]
                   @ asc '': Foo'']\<rparr>"
proof -
  have name: "commandName command
      = takeWhile (\<lambda>c. c \<noteq> 0x28 \<and> \<not> isWhiteSpace c \<and> c \<noteq> 0x2C) command"
    by (simp add: commandName_takeWhile isSeparator_def)
  have foo: "validateCommands [asc ''Foo(1,2)''] =
        \<lparr>isValid = False,
         errors = [[0x672A, 0x77E5, 0x7684] @ asc ''GeoGebra'' @ [0x547D, 0x4EE4]
                   @ asc '': Foo'']\<rparr>"
    by (simp add: validateCommands_def validateCommand_def Let_def commandName_Foo Foo_unknown)
       (simp add: unknownCommandMessage_def asc_def)
  have known: "commandName command \<in> VALID_COMMANDS \<longrightarrow>
        validateCommand command = \<lparr>valid = True, error = None\<rparr>"
    by (simp add: validateCommand_def Let_def)
  have unknown: "commandName command \<notin> VALID_COMMANDS \<longrightarrow>
        validateCommand command =
          \<lparr>valid = False,
           error = Some ([0x672A, 0x77E5, 0x7684] @ asc ''GeoGebra'' @ [0x547D, 0x4EE4]
                         @ asc '': '' @ commandName command)\<rparr>"
    by (simp add: validateCommand_def unknownCommandMessage_def Let_def)
  from name foo known unknown show ?thesis
    by blast
qed

theorem validateCommand_name_witness:
  "validateCommand (asc ''Foo(1,2)'') =
     \<lparr>valid = False,
      error = Some ([0x672A, 0x77E5, 0x7684] @ asc ''GeoGebra'' @ [0x547D, 0x4EE4]
                    @ asc '': '' @ asc ''Foo'')\<rparr>
   \<and> validateCommand (asc ''Circle((0,0), 1)'') = \<lparr>valid = True, error = None\<rparr>"
  using validateCommand_name [of "asc ''Foo(1,2)''"]
    validateCommand_name [of "asc ''Circle((0,0), 1)''"]
  by (simp add: commandName_Foo Foo_unknown commandName_Circle Circle_known)

text \<open>
  C6. For every sequence of commands, \<open>isValid\<close> is true exactly when every command is
  valid, and \<open>errors\<close> holds the message of each invalid command, one for one and in the
  order of the input: nothing for a valid command, and a repeated invalid command is
  reported each time.
\<close>

theorem validateCommands_all_valid:
  "isValid (validateCommands commands) = (\<forall>c \<in> set commands. valid (validateCommand c))
   \<and> errors (validateCommands commands) =
       map (\<lambda>c. unknownCommandMessage (commandName c))
         (filter (\<lambda>c. \<not> valid (validateCommand c)) commands)"
proof -
  have v: "\<And>c. valid (validateCommand c) = (commandName c \<in> VALID_COMMANDS)"
    by (simp add: validateCommand_def Let_def)
  show ?thesis
    by (auto simp: validateCommands_def validateLoop_append v Let_def filter_empty_conv)
qed

theorem validateCommands_all_valid_witness:
  "\<not> isValid (validateCommands [asc ''Circle((0,0), 1)'', asc ''Foo(1,2)'', asc ''Foo(1,2)''])
   \<and> errors (validateCommands [asc ''Circle((0,0), 1)'', asc ''Foo(1,2)'', asc ''Foo(1,2)'']) =
       [unknownCommandMessage (asc ''Foo''), unknownCommandMessage (asc ''Foo'')]"
  using validateCommands_all_valid
    [of "[asc ''Circle((0,0), 1)'', asc ''Foo(1,2)'', asc ''Foo(1,2)'']"]
  by (simp add: validateCommand_def Let_def commandName_Foo Foo_unknown commandName_Circle
      Circle_known)

section \<open>Properties of the extractor\<close>

lemma find_first_sound:
  "find_first pat s = Some (b, a) \<Longrightarrow> s = b @ pat @ a"
proof (induction s arbitrary: b)
  case Nil
  then show ?case by (simp split: if_splits)
next
  case (Cons c cs)
  show ?case
  proof (cases "prefix pat (c # cs)")
    case True
    then obtain zs where zs: "c # cs = pat @ zs"
      by (auto simp: prefix_def)
    from True Cons.prems have "b = []" "a = drop (length pat) (c # cs)"
      by simp_all
    with zs show ?thesis by simp
  next
    case False
    with Cons.prems obtain b' where b': "find_first pat cs = Some (b', a)" "b = c # b'"
      by auto
    with Cons.IH show ?thesis by simp
  qed
qed

lemma find_first_None_iff:
  "find_first pat s = None \<longleftrightarrow> \<not> sublist pat s"
  by (induction s) (auto simp: sublist_Cons_right)

lemma prefix_of_longer:
  assumes "prefix pat (xs @ ys)" "length pat \<le> length xs"
  shows "prefix pat xs"
  using assms prefix_length_prefix [of pat "xs @ ys" xs] by simp

lemma butlast_last_append: "xs \<noteq> [] \<Longrightarrow> butlast xs @ last xs # ys = xs @ ys"
  by (induction xs) auto

lemma find_first_first:
  assumes "pat \<noteq> []" "\<not> sublist pat (b @ butlast pat)"
  shows "find_first pat (b @ pat @ a) = Some (b, a)"
  using assms(2)
proof (induction b)
  case Nil
  from assms(1) obtain p ps where "pat = p # ps" by (cases pat) auto
  then show ?case by simp
next
  case (Cons c b)
  have np: "\<not> prefix pat (c # b @ butlast pat)" and ns: "\<not> sublist pat (b @ butlast pat)"
    using Cons.prems by (simp_all add: sublist_Cons_right)
  have "\<not> prefix pat (c # b @ pat @ a)"
  proof
    assume p: "prefix pat (c # b @ pat @ a)"
    have "c # b @ pat @ a = (c # b @ butlast pat) @ (last pat # a)"
      using assms(1) by (simp add: butlast_last_append)
    with p have "prefix pat ((c # b @ butlast pat) @ (last pat # a))"
      by simp
    then have "prefix pat (c # b @ butlast pat)"
      by (rule prefix_of_longer) simp
    with np show False ..
  qed
  with Cons.IH [OF ns] show ?case by simp
qed

lemma find_first_is_first:
  assumes "find_first pat s = Some (b, a)" "pat \<noteq> []"
  shows "\<not> sublist pat (b @ butlast pat)"
  using assms(1)
proof (induction s arbitrary: b)
  case Nil
  with assms(2) show ?case by simp
next
  case (Cons c cs)
  show ?case
  proof (cases "prefix pat (c # cs)")
    case True
    with Cons.prems have "b = []" by simp
    moreover have "\<not> sublist pat (butlast pat)"
      using assms(2) sublist_length_le [of pat "butlast pat"] by (cases pat) auto
    ultimately show ?thesis by simp
  next
    case False
    with Cons.prems obtain b' where b': "find_first pat cs = Some (b', a)" "b = c # b'"
      by auto
    from find_first_sound [OF b'(1)] have cs: "cs = b' @ pat @ a" .
    have "\<not> prefix pat (c # b' @ butlast pat)"
    proof
      assume "prefix pat (c # b' @ butlast pat)"
      then have "prefix pat ((c # b' @ butlast pat) @ (last pat # a))"
        by (rule prefix_prefix)
      with assms(2) cs have "prefix pat (c # cs)" by (simp add: butlast_last_append)
      with False show False ..
    qed
    with Cons.IH [OF b'(1)] b'(2) show ?thesis
      by (simp add: sublist_Cons_right)
  qed
qed

lemma opener_nonempty: "opener \<noteq> []"
  by (simp add: opener_def)

lemma fence_nonempty: "fence \<noteq> []"
  by (simp add: fence_def asc_def)

lemma regexExec_eq:
  "regexExec s =
     (case find_first opener s of None \<Rightarrow> None | Some (p, r) \<Rightarrow> find_first fence r)"
proof (induction s)
  case Nil
  then show ?case by (simp add: opener_nonempty)
next
  case (Cons c cs)
  show ?case
  proof (cases "prefix opener (c # cs)")
    case False
    with Cons.IH show ?thesis
      by (cases "find_first opener cs") auto
  next
    case True
    show ?thesis
    proof (cases "find_first fence (drop (length opener) (c # cs))")
      case (Some m)
      with True show ?thesis by simp
    next
      case None
      then have nf: "\<not> sublist fence (drop (length opener) (c # cs))"
        by (simp add: find_first_None_iff)
      have "(case find_first opener cs of None \<Rightarrow> None | Some (p, r) \<Rightarrow> find_first fence r) = None"
      proof (cases "find_first opener cs")
        case None
        then show ?thesis by simp
      next
        case (Some pr)
        obtain p r where pr: "pr = (p, r)" by (cases pr)
        with Some have "cs = p @ opener @ r"
          by (auto dest: find_first_sound)
        then have cs: "c # cs = (c # p @ opener) @ r"
          by simp
        then have "suffix r (c # cs)"
          unfolding suffix_def by blast
        moreover have "suffix (drop (length opener) (c # cs)) (c # cs)"
          by (rule suffix_drop)
        moreover have "length r \<le> length (drop (length opener) (c # cs))"
          by (subst cs) simp
        ultimately have "suffix r (drop (length opener) (c # cs))"
          by (rule suffix_length_suffix)
        then have "sublist r (drop (length opener) (c # cs))"
          by (rule suffix_imp_sublist)
        with nf have "\<not> sublist fence r"
          using sublist_order.order_trans by blast
        with Some pr show ?thesis
          by (simp add: find_first_None_iff)
      qed
      with True None Cons.IH show ?thesis by simp
    qed
  qed
qed

lemma regexExec_None:
  assumes "\<not> (\<exists>pre block post. s = pre @ opener @ block @ fence @ post)"
  shows "regexExec s = None"
proof (cases "find_first opener s")
  case None
  then show ?thesis by (simp add: regexExec_eq)
next
  case (Some pr)
  obtain p r where pr: "pr = (p, r)" by (cases pr)
  with Some have s: "s = p @ opener @ r" by (auto dest: find_first_sound)
  have "find_first fence r = None"
  proof (cases "find_first fence r")
    case None
    then show ?thesis .
  next
    case (Some ba)
    obtain b a where "ba = (b, a)" by (cases ba)
    with Some have "r = b @ fence @ a" by (auto dest: find_first_sound)
    with s assms show ?thesis by blast
  qed
  with Some pr show ?thesis by (simp add: regexExec_eq)
qed

lemma regexExec_block:
  assumes "\<not> sublist opener (pre @ butlast opener)" "\<not> sublist fence (block @ butlast fence)"
  shows "regexExec (pre @ opener @ block @ fence @ post) = Some (block, post)"
  by (simp add: regexExec_eq find_first_first [OF opener_nonempty assms(1)]
      find_first_first [OF fence_nonempty assms(2)])

lemma extractLoop_acc:
  "extractLoop t acc = acc @ extractLoop t []"
proof (induction "length t" arbitrary: t acc rule: less_induct)
  case less
  show ?case
  proof (cases "regexExec t")
    case None
    then show ?thesis by (subst (1 2) extractLoop.simps) simp
  next
    case (Some m)
    obtain blk rest where m: "m = (blk, rest)" by (cases m)
    with Some have "length rest < length t" by (simp add: regexExec_shorter)
    note ih = less [OF this]
    have 1: "extractLoop t acc = extractLoop rest (acc @ commandLines blk)"
      using Some m by (subst extractLoop.simps) simp
    have 2: "extractLoop t [] = extractLoop rest (commandLines blk)"
      using Some m by (subst extractLoop.simps) simp
    have "extractLoop t acc = (acc @ commandLines blk) @ extractLoop rest []"
      unfolding 1 by (rule ih)
    also have "\<dots> = acc @ extractLoop rest (commandLines blk)"
      using ih [of "commandLines blk"] by simp
    finally show ?thesis
      unfolding 2 .
  qed
qed

lemma extractCommands_unfold:
  "extractCommands t =
     (case regexExec t of None \<Rightarrow> []
      | Some (blk, rest) \<Rightarrow> commandLines blk @ extractCommands rest)"
proof (cases "regexExec t")
  case None
  then show ?thesis
    unfolding extractCommands_def by (subst extractLoop.simps) simp
next
  case (Some m)
  obtain blk rest where m: "m = (blk, rest)" by (cases m)
  have "extractLoop t [] = extractLoop rest (commandLines blk)"
    using Some m by (subst extractLoop.simps) simp
  also have "\<dots> = commandLines blk @ extractLoop rest []"
    by (rule extractLoop_acc)
  finally show ?thesis
    using Some m by (simp add: extractCommands_def)
qed

lemma trim_empty_iff: "trim s = [] \<longleftrightarrow> blankLine s"
proof
  assume "blankLine s"
  then show "trim s = []"
    by (auto simp: trim_def blankLine_def list_all_iff dropWhile_eq_Nil_conv dest: set_dropWhileD)
next
  assume t: "trim s = []"
  have "dropWhile isWhiteSpace s = []"
  proof (rule ccontr)
    assume ne: "dropWhile isWhiteSpace s \<noteq> []"
    then have "\<not> isWhiteSpace (hd (dropWhile isWhiteSpace s))"
      by (rule hd_dropWhile)
    moreover from t have "\<forall>c \<in> set (dropWhile isWhiteSpace s). isWhiteSpace c"
      by (simp add: trim_def dropWhile_eq_Nil_conv)
    ultimately show False
      using ne by (meson hd_in_set)
  qed
  then show "blankLine s"
    by (simp add: blankLine_def list_all_iff dropWhile_eq_Nil_conv)
qed

lemma commandLines_eq:
  "commandLines block =
     map trim (filter (\<lambda>line. \<not> blankLine line) (split_by (\<lambda>c. c = 0x0A) block))"
  by (simp add: commandLines_def filter_map comp_def trim_empty_iff)

lemma count_lines:
  "length (filter (\<lambda>line. \<not> blankLine line) ls) + length (filter blankLine ls) = length ls"
  by (induction ls) auto

lemma extractCommands_none:
  assumes "\<not> (\<exists>pre block post. t = pre @ opener @ block @ fence @ post)"
  shows "extractCommands t = []"
  by (subst extractCommands_unfold) (simp add: regexExec_None [OF assms])

lemma extractCommands_first_block:
  assumes "\<not> sublist opener (pre @ butlast opener)" "\<not> sublist fence (block @ butlast fence)"
  shows "extractCommands (pre @ opener @ block @ fence @ post)
         = commandLines block @ extractCommands post"
  by (subst extractCommands_unfold) (simp add: regexExec_block [OF assms])

lemma find_first_append:
  assumes "find_first pat s = Some (b, a)" "pat \<noteq> []"
  shows "find_first pat (s @ t) = Some (b, a @ t)"
proof -
  from find_first_sound [OF assms(1)] have "s @ t = b @ pat @ (a @ t)"
    by simp
  with find_first_first [OF assms(2) find_first_is_first [OF assms], of "a @ t"]
  show ?thesis by simp
qed

lemma set_fence: "set fence = {0x60}"
  by (simp add: fence_def asc_def)

lemma no_fence_append:
  assumes "\<not> sublist fence s" "\<not> sublist fence t" "s = [] \<or> last s \<noteq> 0x60"
  shows "\<not> sublist fence (s @ t)"
proof
  assume "sublist fence (s @ t)"
  with assms(1,2) obtain x1 x2 where x: "fence = x1 @ x2" "suffix x1 s" "prefix x2 t"
    by (auto simp: sublist_append)
  show False
  proof (cases "x1 = []")
    case True
    with x have "prefix fence t" by simp
    then have "sublist fence t"
      by (auto simp: prefix_def)
    with assms(2) show False ..
  next
    case False
    from x(2) obtain z where s: "s = z @ x1"
      by (auto simp: suffix_def)
    with False have "last s = last x1" "s \<noteq> []"
      by simp_all
    moreover have "last x1 \<in> set fence"
      using False by (subst x(1)) simp
    ultimately show False
      using assms(3) by (simp add: set_fence)
  qed
qed

lemma last_opener: "last opener = 0x0A"
  by (simp add: opener_def)

lemma unclosed_tail:
  assumes "\<not> sublist fence t"
  shows "s = [] \<or> last s \<noteq> 0x60 \<Longrightarrow> extractLoop (s @ t) acc = extractLoop s acc"
proof (induction "length s" arbitrary: s acc rule: less_induct)
  case less
  show ?case
  proof (cases "find_first opener s")
    case None
    then have rs: "regexExec s = None"
      by (simp add: regexExec_eq)
    have "regexExec (s @ t) = None"
    proof (cases "find_first opener (s @ t)")
      case None
      then show ?thesis by (simp add: regexExec_eq)
    next
      case (Some pr)
      obtain p r where pr: "pr = (p, r)" by (cases pr)
      with Some have st: "s @ t = (p @ opener) @ r"
        by (auto dest: find_first_sound)
      have "length r < length t"
      proof (rule ccontr)
        assume "\<not> length r < length t"
        moreover from st have "length s + length t = length (p @ opener) + length r"
          by (metis length_append)
        ultimately have "length (p @ opener) \<le> length s"
          by linarith
        moreover have "prefix (p @ opener) (s @ t)"
          using st by (simp add: prefix_def)
        ultimately have "prefix (p @ opener) s"
          by (rule prefix_of_longer [rotated])
        then have "sublist opener s"
          by (auto simp: prefix_def sublist_def)
        with None show False
          by (simp add: find_first_None_iff)
      qed
      moreover have "suffix r (s @ t)"
        unfolding st by (simp add: suffix_def)
      moreover have "suffix t (s @ t)"
        by (simp add: suffix_def)
      ultimately have "suffix r t"
        using suffix_length_suffix [of r "s @ t" t] by simp
      with assms have "\<not> sublist fence r"
        using sublist_order.order_trans suffix_imp_sublist by blast
      with Some pr show ?thesis
        by (simp add: regexExec_eq find_first_None_iff)
    qed
    with rs show ?thesis
      by (subst (1 2) extractLoop.simps) simp
  next
    case (Some pr)
    obtain p r where pr: "pr = (p, r)" by (cases pr)
    with Some have s: "s = p @ opener @ r"
      by (auto dest: find_first_sound)
    from Some pr have ot: "find_first opener (s @ t) = Some (p, r @ t)"
      by (simp add: find_first_append opener_nonempty)
    have r_last: "r = [] \<or> last r \<noteq> 0x60"
      using less.prems s by (cases "r = []") auto
    show ?thesis
    proof (cases "find_first fence r")
      case None
      then have "\<not> sublist fence (r @ t)"
        using no_fence_append [OF _ assms r_last] by (simp add: find_first_None_iff)
      with ot have "regexExec (s @ t) = None"
        by (simp add: regexExec_eq find_first_None_iff)
      moreover from None Some pr have "regexExec s = None"
        by (simp add: regexExec_eq)
      ultimately show ?thesis
        by (subst (1 2) extractLoop.simps) simp
    next
      case (Some ba)
      obtain b a where ba: "ba = (b, a)" by (cases ba)
      with Some have r: "r = b @ fence @ a"
        by (auto dest: find_first_sound)
      from Some ba have "find_first fence (r @ t) = Some (b, a @ t)"
        by (simp add: find_first_append fence_nonempty)
      with ot have 1: "regexExec (s @ t) = Some (b, a @ t)"
        by (simp add: regexExec_eq)
      from Some ba \<open>find_first opener s = Some pr\<close> pr have 2: "regexExec s = Some (b, a)"
        by (simp add: regexExec_eq)
      have "length a < length s"
        using s r by (simp add: fence_nonempty)
      moreover have "a = [] \<or> last a \<noteq> 0x60"
        using r_last r by (cases "a = []") auto
      ultimately have ih: "extractLoop (a @ t) (acc @ commandLines b) = extractLoop a (acc @ commandLines b)"
        by (rule less.hyps)
      have "extractLoop (s @ t) acc = extractLoop (a @ t) (acc @ commandLines b)"
        using 1 by (subst extractLoop.simps) simp
      also note ih
      also have "extractLoop a (acc @ commandLines b) = extractLoop s acc"
        using 2 by (subst (2) extractLoop.simps) simp
      finally show ?thesis .
    qed
  qed
qed

lemma extractCommands_unclosed:
  assumes "\<not> sublist fence tail"
  shows "extractCommands (pre @ opener @ tail) = extractCommands (pre @ opener)"
proof -
  have "pre @ opener = [] \<or> last (pre @ opener) \<noteq> 0x60"
    by (simp add: opener_nonempty last_opener)
  from unclosed_tail [OF assms this, of "[]"] show ?thesis
    by (simp add: extractCommands_def)
qed

lemma regexExec_Some_if_block:
  assumes t: "t = pre @ opener @ block @ fence @ post"
  shows "regexExec t \<noteq> None"
proof -
  have "sublist opener t"
    unfolding t by simp
  then obtain p r where pr: "find_first opener t = Some (p, r)"
    using find_first_None_iff [of opener t] by (cases "find_first opener t") auto
  from find_first_sound [OF pr] have tp: "t = p @ opener @ r" .
  from find_first_is_first [OF pr opener_nonempty]
  have first: "\<not> sublist opener (p @ butlast opener)" .
  have le: "length p \<le> length pre"
  proof (rule ccontr)
    assume "\<not> length p \<le> length pre"
    then have "length (pre @ opener) \<le> length (p @ butlast opener)"
      by simp
    moreover have "prefix (pre @ opener) t"
      unfolding t by (simp add: prefix_def)
    moreover have "t = (p @ butlast opener) @ (last opener # r)"
      using tp by (simp add: butlast_last_append opener_nonempty)
    then have "prefix (p @ butlast opener) t"
      unfolding prefix_def by blast
    ultimately have "prefix (pre @ opener) (p @ butlast opener)"
      using prefix_length_prefix by blast
    then have "sublist opener (p @ butlast opener)"
      by (auto simp: prefix_def sublist_def)
    with first show False ..
  qed
  have "suffix (block @ fence @ post) t"
    unfolding t suffix_def by (rule exI [of _ "pre @ opener"]) simp
  moreover have "suffix r t"
    unfolding suffix_def using tp by (intro exI [of _ "p @ opener"]) simp
  moreover have "length (block @ fence @ post) \<le> length r"
  proof -
    have "length t = length pre + length opener + length (block @ fence @ post)"
      unfolding t by simp
    moreover have "length t = length p + length opener + length r"
      by (subst tp) simp
    ultimately show ?thesis using le by linarith
  qed
  ultimately have "suffix (block @ fence @ post) r"
    by (rule suffix_length_suffix)
  then have "sublist (block @ fence @ post) r"
    by (rule suffix_imp_sublist)
  moreover have "sublist fence (block @ fence @ post)"
    by simp
  ultimately have "sublist fence r"
    using sublist_order.order_trans by blast
  then have "find_first fence r \<noteq> None"
    by (simp add: find_first_None_iff)
  with pr show ?thesis
    by (simp add: regexExec_eq)
qed

lemma closed_block_iff:
  "(\<exists>pre block post. t = pre @ opener @ block @ fence @ post) \<longleftrightarrow> regexExec t \<noteq> None"
proof
  assume "\<exists>pre block post. t = pre @ opener @ block @ fence @ post"
  then obtain pre block post where "t = pre @ opener @ block @ fence @ post"
    by blast
  then show "regexExec t \<noteq> None"
    by (rule regexExec_Some_if_block)
next
  assume "regexExec t \<noteq> None"
  with regexExec_None [of t] show "\<exists>pre block post. t = pre @ opener @ block @ fence @ post"
    by blast
qed

lemma no_block_example: "regexExec (asc ''no ``` block'') = None"
  by (simp add: asc_def opener_def)

lemma done_example: "regexExec (asc '' done'') = None"
  by (simp add: asc_def opener_def)

lemma see_example: "\<not> sublist opener (asc ''see '' @ butlast opener)"
  by (simp add: asc_def opener_def sublist_code)

lemma block_example:
  "\<not> sublist fence
       ((asc '' Point(1,2) '' @ [0x0A, 0x0A] @ asc ''Foo(3)'' @ [0x0D, 0x0A]) @ butlast fence)"
  by (simp add: asc_def fence_def sublist_code)

lemma tail_example: "\<not> sublist fence (asc ''Line(A,B)'')"
  by (simp add: asc_def fence_def sublist_code)

lemma split_example:
  "split_by (\<lambda>c. c = 0x0A) (asc '' Point(1,2) '' @ [0x0A, 0x0A] @ asc ''Foo(3)'' @ [0x0D, 0x0A])
     = [asc '' Point(1,2) '', [], asc ''Foo(3)'' @ [0x0D], []]"
  by (simp add: asc_def)

lemma blank_example:
  "blankLine [] \<and> \<not> blankLine (asc '' Point(1,2) '') \<and> \<not> blankLine (asc ''Foo(3)'' @ [0x0D])"
  by (simp add: blankLine_def asc_def isWhiteSpace_def)

lemma trim_example:
  "trim (asc '' Point(1,2) '') = asc ''Point(1,2)''
   \<and> trim (asc ''Foo(3)'' @ [0x0D]) = asc ''Foo(3)''"
  by (simp add: trim_def asc_def isWhiteSpace_def)

lemma unclosed_example: "regexExec (asc ''see '' @ opener @ asc ''Line(A,B)'') = None"
  by (simp add: asc_def opener_def fence_def)

text \<open>
  C4. A text with no closed geogebra-fenced block (no opening fence \<open>```geogebra\<close> with
  its line break that has three backticks somewhere behind it) gives no commands. A
  block whose opening fence is the first in the text and whose closing fence is the
  first three backticks behind it gives its lines in order, each trimmed, the blank and
  white-space-only ones left out, followed by what the text behind the block gives: so
  the lines of several blocks come in document order. Where that is the only closed
  block, the result is exactly its N trimmed non-blank lines, N plus the M blank
  lines being all lines of the block. What follows an opening fence with no three
  backticks behind it adds no commands: the result is the same without it.
\<close>

theorem extractCommands_blocks:
  "(\<not> (\<exists>pre block post. t = pre @ opener @ block @ fence @ post) \<longrightarrow> extractCommands t = [])
   \<and> (\<not> sublist opener (pre @ butlast opener) \<and> \<not> sublist fence (block @ butlast fence) \<longrightarrow>
        extractCommands (pre @ opener @ block @ fence @ post)
          = map trim (filter (\<lambda>line. \<not> blankLine line) (split_by (\<lambda>c. c = 0x0A) block))
            @ extractCommands post)
   \<and> (\<not> sublist opener (pre @ butlast opener) \<and> \<not> sublist fence (block @ butlast fence)
        \<and> \<not> (\<exists>p b q. post = p @ opener @ b @ fence @ q) \<longrightarrow>
        extractCommands (pre @ opener @ block @ fence @ post)
          = map trim (filter (\<lambda>line. \<not> blankLine line) (split_by (\<lambda>c. c = 0x0A) block))
        \<and> length (extractCommands (pre @ opener @ block @ fence @ post))
            + length (filter blankLine (split_by (\<lambda>c. c = 0x0A) block))
          = length (split_by (\<lambda>c. c = 0x0A) block))
   \<and> (\<not> sublist fence tail \<longrightarrow>
        extractCommands (pre @ opener @ tail) = extractCommands (pre @ opener))"
proof (intro conjI impI)
  assume "\<not> (\<exists>pre block post. t = pre @ opener @ block @ fence @ post)"
  then show "extractCommands t = []"
    by (rule extractCommands_none)
next
  assume "\<not> sublist opener (pre @ butlast opener) \<and> \<not> sublist fence (block @ butlast fence)"
  then show "extractCommands (pre @ opener @ block @ fence @ post)
          = map trim (filter (\<lambda>line. \<not> blankLine line) (split_by (\<lambda>c. c = 0x0A) block))
            @ extractCommands post"
    by (simp add: extractCommands_first_block commandLines_eq)
next
  assume a: "\<not> sublist opener (pre @ butlast opener) \<and> \<not> sublist fence (block @ butlast fence)
        \<and> \<not> (\<exists>p b q. post = p @ opener @ b @ fence @ q)"
  then have "extractCommands post = []"
    by (simp add: extractCommands_none)
  with a show e: "extractCommands (pre @ opener @ block @ fence @ post)
          = map trim (filter (\<lambda>line. \<not> blankLine line) (split_by (\<lambda>c. c = 0x0A) block))"
    by (simp add: extractCommands_first_block commandLines_eq)
  show "length (extractCommands (pre @ opener @ block @ fence @ post))
            + length (filter blankLine (split_by (\<lambda>c. c = 0x0A) block))
          = length (split_by (\<lambda>c. c = 0x0A) block)"
    unfolding e by (simp add: count_lines)
next
  assume "\<not> sublist fence tail"
  then show "extractCommands (pre @ opener @ tail) = extractCommands (pre @ opener)"
    by (rule extractCommands_unclosed)
qed

theorem extractCommands_blocks_witness:
  "extractCommands (asc ''no ``` block'') = []
   \<and> extractCommands (asc ''see '' @ opener
         @ (asc '' Point(1,2) '' @ [0x0A, 0x0A] @ asc ''Foo(3)'' @ [0x0D, 0x0A]) @ fence @ asc '' done'')
       = [asc ''Point(1,2)'', asc ''Foo(3)'']
   \<and> extractCommands (asc ''see '' @ opener @ asc ''Line(A,B)'')
       = extractCommands (asc ''see '' @ opener)
   \<and> extractCommands (asc ''see '' @ opener @ asc ''Line(A,B)'') = []"
proof -
  note th = extractCommands_blocks [of "asc ''no ``` block''" "asc ''see ''"
      "asc '' Point(1,2) '' @ [0x0A, 0x0A] @ asc ''Foo(3)'' @ [0x0D, 0x0A]" "asc '' done''"
      "asc ''Line(A,B)''"]
  have a: "extractCommands (asc ''no ``` block'') = []"
    using th [THEN conjunct1] by (simp only: closed_block_iff no_block_example simp_thms)
  have b: "extractCommands (asc ''see '' @ opener
         @ (asc '' Point(1,2) '' @ [0x0A, 0x0A] @ asc ''Foo(3)'' @ [0x0D, 0x0A]) @ fence @ asc '' done'')
       = [asc ''Point(1,2)'', asc ''Foo(3)'']"
    using th [THEN conjunct2, THEN conjunct2, THEN conjunct1]
    by (simp only: closed_block_iff done_example see_example block_example split_example
        blank_example trim_example simp_thms list.map filter.simps if_True if_False)
  have c: "extractCommands (asc ''see '' @ opener @ asc ''Line(A,B)'')
       = extractCommands (asc ''see '' @ opener)"
    using th [THEN conjunct2, THEN conjunct2, THEN conjunct2] by (simp only: tail_example simp_thms)
  have d: "extractCommands (asc ''see '' @ opener @ asc ''Line(A,B)'') = []"
    using extractCommands_blocks [of "asc ''see '' @ opener @ asc ''Line(A,B)''", THEN conjunct1]
    by (simp only: closed_block_iff unclosed_example simp_thms)
  from a b c d show ?thesis
    by (intro conjI)
qed

section \<open>Properties of the annotator\<close>

lemma validateCommands_isValid:
  "isValid (validateCommands commands) \<longleftrightarrow> (\<forall>c \<in> set commands. commandName c \<in> VALID_COMMANDS)"
  by (auto simp: validateCommands_def validateLoop_append Let_def filter_empty_conv)

lemma validateCommands_errors:
  "errors (validateCommands commands) =
     map (\<lambda>c. unknownCommandMessage (commandName c))
       (filter (\<lambda>c. commandName c \<notin> VALID_COMMANDS) commands)"
  by (simp add: validateCommands_def validateLoop_append Let_def)

lemma transform_invalid:
  assumes "filter (\<lambda>c. commandName c \<notin> VALID_COMMANDS) (extractCommands (TextDecoder_decode chunk))
             = [command]"
  shows "transform chunk
           = [TextEncoder_encode (warningText [unknownCommandMessage (commandName command)]), chunk]"
proof -
  let ?cs = "extractCommands (TextDecoder_decode chunk)"
  from assms have "command \<in> set (filter (\<lambda>c. commandName c \<notin> VALID_COMMANDS) ?cs)"
    by simp
  then have mem: "command \<in> set ?cs" and bad: "commandName command \<notin> VALID_COMMANDS"
    by simp_all
  from mem have ne: "length ?cs > 0"
    by (cases ?cs) auto
  from mem bad have inv: "\<not> isValid (validateCommands ?cs)"
    by (auto simp: validateCommands_isValid)
  have errs: "errors (validateCommands ?cs) = [unknownCommandMessage (commandName command)]"
    by (simp add: validateCommands_errors assms)
  show ?thesis
    using ne inv errs by (simp add: transform_def Let_def)
qed

lemma message_in_warning: "sublist e (warningText [e])"
proof -
  have "warningText [e] =
     ([0x0A, 0x0A, 0x26A0, 0xFE0F, 0x20, 0x8B66, 0x544A, 0xFF1A, 0x53D1, 0x73B0, 0x4EE5, 0x4E0B,
      0x65E0, 0x6548, 0x7684] @ asc ''GeoGebra'' @ [0x547D, 0x4EE4, 0xFF1A, 0x0A]) @ e
     @ [0x0A, 0x8BF7, 0x68C0, 0x67E5, 0x547D, 0x4EE4, 0x662F, 0x5426, 0x6B63, 0x786E, 0x3002]"
    by (simp add: warningText_def)
  then show ?thesis
    by (simp only: sublist_appendI)
qed

lemma decode_barChunk:
  "TextDecoder_decode barChunk = opener @ (asc ''Bar(1)'' @ [0x0A]) @ fence"
  by (simp add: barChunk_def TextDecoder_decode_def utf8Lead_def utf16_def dropBOM_def opener_def
      fence_def asc_def)

lemma extract_barChunk: "extractCommands (TextDecoder_decode barChunk) = [asc ''Bar(1)'']"
proof -
  have 1: "\<not> sublist opener ([] @ butlast opener)"
    by (simp add: opener_def asc_def sublist_code)
  have 2: "\<not> sublist fence ((asc ''Bar(1)'' @ [0x0A]) @ butlast fence)"
    by (simp add: fence_def asc_def sublist_code)
  have 3: "extractCommands [] = []"
    by (subst extractCommands_unfold) simp
  have 4: "commandLines (asc ''Bar(1)'' @ [0x0A]) = [asc ''Bar(1)'']"
    by (simp add: commandLines_def asc_def trim_def isWhiteSpace_def)
  from extractCommands_first_block [OF 1 2, of "[]"] show ?thesis
    by (simp add: decode_barChunk 3 4)
qed

lemma commandName_Bar: "commandName (asc ''Bar(1)'') = asc ''Bar''"
  by (simp add: commandName_takeWhile asc_def isSeparator_def isWhiteSpace_def)

lemma Bar_unknown: "asc ''Bar'' \<notin> VALID_COMMANDS"
  by (simp add: VALID_COMMANDS_def asc_def)

lemma transform_barChunk:
  "transform barChunk = [TextEncoder_encode (warningText [unknownCommandMessage (asc ''Bar'')]), barChunk]"
  using transform_invalid [of barChunk "asc ''Bar(1)''"]
  by (simp add: extract_barChunk commandName_Bar Bar_unknown)

lemma warning_bytes:
  "TextEncoder_encode (warningText [unknownCommandMessage (asc ''Bar'')]) =
    [10, 10, 226, 154, 160, 239, 184, 143, 32, 232, 173, 166, 229, 145, 138,
   239, 188, 154, 229, 143, 145, 231, 142, 176, 228, 187, 165, 228, 184,
   139, 230, 151, 160, 230, 149, 136, 231, 154, 132, 71, 101, 111, 71, 101,
   98, 114, 97, 229, 145, 189, 228, 187, 164, 239, 188, 154, 10, 230, 156,
   170, 231, 159, 165, 231, 154, 132, 71, 101, 111, 71, 101, 98, 114, 97,
   229, 145, 189, 228, 187, 164, 58, 32, 66, 97, 114, 10, 232, 175, 183,
   230, 163, 128, 230, 159, 165, 229, 145, 189, 228, 187, 164, 230, 152,
   175, 229, 144, 166, 230, 173, 163, 231, 161, 174, 227, 128, 130]"
  by (simp add: TextEncoder_encode_def warningText_def unknownCommandMessage_def asc_def utf8Bytes_def)

lemma ascii_bytes:
  "TextEncoder_encode (asc ''unknown command: Bar'') = map of_char ''unknown command: Bar''"
  by (simp add: TextEncoder_encode_def asc_def utf8Bytes_def)

lemma decode_pointChunk:
  "TextDecoder_decode pointChunk = opener @ (asc ''Point(1,2)'' @ [0x0A]) @ fence"
  by (simp add: pointChunk_def TextDecoder_decode_def utf8Lead_def utf16_def dropBOM_def
      opener_def fence_def asc_def)

lemma extract_pointChunk: "extractCommands (TextDecoder_decode pointChunk) = [asc ''Point(1,2)'']"
proof -
  have 1: "\<not> sublist opener ([] @ butlast opener)"
    by (simp add: opener_def asc_def sublist_code)
  have 2: "\<not> sublist fence ((asc ''Point(1,2)'' @ [0x0A]) @ butlast fence)"
    by (simp add: fence_def asc_def sublist_code)
  have 3: "extractCommands [] = []"
    by (subst extractCommands_unfold) simp
  have 4: "commandLines (asc ''Point(1,2)'' @ [0x0A]) = [asc ''Point(1,2)'']"
    by (simp add: commandLines_def asc_def trim_def isWhiteSpace_def)
  from extractCommands_first_block [OF 1 2, of "[]"] show ?thesis
    by (simp add: decode_pointChunk 3 4)
qed

lemma commandName_Point: "commandName (asc ''Point(1,2)'') = asc ''Point''"
  by (simp add: commandName_takeWhile asc_def isSeparator_def isWhiteSpace_def)

lemma Point_known: "asc ''Point'' \<in> VALID_COMMANDS"
  by (simp add: VALID_COMMANDS_def asc_def)

lemma extract_plainChunk: "extractCommands (TextDecoder_decode plainChunk) = []"
proof -
  have "TextDecoder_decode plainChunk = asc ''Hello''"
    by (simp add: plainChunk_def TextDecoder_decode_def utf8Lead_def utf16_def dropBOM_def asc_def)
  moreover have "regexExec (asc ''Hello'') = None"
    by (simp add: asc_def opener_def)
  ultimately show ?thesis
    by (subst extractCommands_unfold) simp
qed

text \<open>
  C3. For every chunk whose decoded text holds no command, or only commands whose names
  are in the vocabulary, the annotator enqueues the chunk and nothing else: the bytes
  that leave are the bytes that came.
\<close>

theorem transform_passthrough:
  assumes "extractCommands (TextDecoder_decode chunk) = []
           \<or> (\<forall>c \<in> set (extractCommands (TextDecoder_decode chunk)). commandName c \<in> VALID_COMMANDS)"
  shows "transform chunk = [chunk] \<and> concat (transform chunk) = chunk"
proof -
  have "transform chunk = [chunk]"
    using assms by (auto simp: transform_def Let_def validateCommands_isValid)
  then show ?thesis by simp
qed

theorem transform_passthrough_witness:
  "transform pointChunk = [pointChunk] \<and> concat (transform pointChunk) = pointChunk
   \<and> transform plainChunk = [plainChunk] \<and> concat (transform plainChunk) = plainChunk"
  using transform_passthrough [of pointChunk] transform_passthrough [of plainChunk]
  by (simp add: extract_pointChunk extract_plainChunk commandName_Point Point_known)

text \<open>
  C2, as the claim states it, at the chunk \<open>```geogebra / Bar(1) / ```\<close>: its decoded
  text holds exactly one invalid command, named \<open>Bar\<close>, and two chunks are enqueued, but
  the first of them does not contain \<open>unknown command: Bar\<close>.
\<close>

theorem transform_warning_counterexample:
  "filter (\<lambda>c. commandName c \<notin> VALID_COMMANDS) (extractCommands (TextDecoder_decode barChunk))
     = [asc ''Bar(1)'']
   \<and> commandName (asc ''Bar(1)'') = asc ''Bar''
   \<and> length (transform barChunk) = 2
   \<and> \<not> sublist (TextEncoder_encode (asc ''unknown command: Bar'')) (hd (transform barChunk))"
proof -
  have "\<not> sublist (TextEncoder_encode (asc ''unknown command: Bar''))
          (TextEncoder_encode (warningText [unknownCommandMessage (asc ''Bar'')]))"
    unfolding warning_bytes ascii_bytes by (simp add: sublist_code)
  then show ?thesis
    by (simp add: transform_barChunk extract_barChunk commandName_Bar Bar_unknown)
qed

text \<open>
  C2, amended. For every chunk whose decoded text holds exactly one invalid command, the
  annotator enqueues exactly two chunks: first the UTF-8 bytes of the warning, then the
  chunk itself, unchanged. The warning is the template's text around the one error
  message, and that message is U+672A U+77E5 U+7684 \<open>GeoGebra\<close> U+547D U+4EE4, a colon and
  a space, and the command's name.
\<close>

theorem transform_warning:
  assumes "filter (\<lambda>c. commandName c \<notin> VALID_COMMANDS)
             (extractCommands (TextDecoder_decode chunk)) = [command]"
  shows "transform chunk =
           [TextEncoder_encode
              (warningText [[0x672A, 0x77E5, 0x7684] @ asc ''GeoGebra'' @ [0x547D, 0x4EE4]
                            @ asc '': '' @ commandName command]),
            chunk]
         \<and> sublist ([0x672A, 0x77E5, 0x7684] @ asc ''GeoGebra'' @ [0x547D, 0x4EE4]
                      @ asc '': '' @ commandName command)
             (warningText [[0x672A, 0x77E5, 0x7684] @ asc ''GeoGebra'' @ [0x547D, 0x4EE4]
                           @ asc '': '' @ commandName command])"
  using transform_invalid [OF assms] message_in_warning
  by (simp add: unknownCommandMessage_def)

theorem transform_warning_witness:
  "transform barChunk =
     [TextEncoder_encode
        (warningText [[0x672A, 0x77E5, 0x7684] @ asc ''GeoGebra'' @ [0x547D, 0x4EE4]
                      @ asc '': '' @ asc ''Bar'']),
      barChunk]"
  using transform_warning [of barChunk "asc ''Bar(1)''"]
  by (simp add: extract_barChunk commandName_Bar Bar_unknown)

section \<open>Properties of the request handler\<close>

lemma find_unique:
  assumes "x \<in> set xs" "P x" "\<forall>y \<in> set xs. P y \<longrightarrow> y = x"
  shows "find P xs = Some x"
  using assms
proof (induction xs)
  case Nil
  then show ?case by simp
next
  case (Cons a xs)
  show ?case
  proof (cases "P a")
    case True
    with Cons.prems(3) have "a = x" by simp
    with True show ?thesis by simp
  next
    case False
    with Cons.prems(1,2) have "x \<in> set xs" by auto
    moreover from Cons.prems(3) have "\<forall>y \<in> set xs. P y \<longrightarrow> y = x" by simp
    ultimately have "find P xs = Some x"
      using Cons.prems(2) by (intro Cons.IH)
    with False show ?thesis by simp
  qed
qed

lemma respond_key_present:
  assumes "key cfg = Some v" "v \<noteq> []"
  shows "hd (snd (respond sdk customModel model prompt msgs cfg))
           = CreateProvider (selectAdapter customModel model) (Some v) (domain cfg)"
proof -
  have nf: "\<not> falsy (key cfg)"
    using assms by (simp add: falsy_def)
  show ?thesis
    unfolding respond_def Let_def using nf assms(1)
    by (simp split: option.split)
qed

lemma respond_calls_nonempty:
  assumes "key cfg = Some v" "v \<noteq> []"
  shows "snd (respond sdk customModel model prompt msgs cfg) \<noteq> []"
proof -
  have nf: "\<not> falsy (key cfg)"
    using assms by (simp add: falsy_def)
  show ?thesis
    unfolding respond_def Let_def using nf
    by (simp split: option.split)
qed

lemma respond_adapter:
  assumes "snd (respond sdk customModel model prompt msgs cfg) \<noteq> []"
  shows "constructedAdapter (snd (respond sdk customModel model prompt msgs cfg))
           = Some (selectAdapter customModel model)"
proof (cases "falsy (key cfg)")
  case True
  with assms show ?thesis by (simp add: respond_def)
next
  case False
  then show ?thesis
    unfolding respond_def Let_def constructedAdapter_def
    by (simp split: option.split)
qed

lemma POST_calls: "snd (POST sdk env (Some reqBody)) = snd (handle sdk env reqBody)"
  by (simp add: POST_def split: prod.split option.split)

lemma handle_adapter:
  assumes "snd (handle sdk env reqBody) \<noteq> []"
  shows "constructedAdapter (snd (handle sdk env reqBody))
           = Some (selectAdapter
                (findCustomModel (configSettings reqBody) (requestedModel (configSettings reqBody)))
                (requestedModel (configSettings reqBody)))"
proof (cases "messages reqBody")
  case None
  with assms show ?thesis by (simp add: handle_def)
next
  case (Some msgs)
  let ?model = "requestedModel (configSettings reqBody)"
  let ?cm = "findCustomModel (configSettings reqBody) ?model"
  show ?thesis
  proof (cases "resolveApiConfig env ?cm ?model")
    case (Continue cfg)
    with Some have h: "handle sdk env reqBody
        = respond sdk ?cm ?model (requestedPrompt (configSettings reqBody)) msgs cfg"
      by (simp add: handle_def Let_def)
    with assms show ?thesis
      by (simp add: respond_adapter)
  next
    case (Return r)
    with Some assms show ?thesis by (simp add: handle_def Let_def)
  next
    case Throw
    with Some assms show ?thesis by (simp add: handle_def Let_def)
  qed
qed

lemma handle_Continue:
  assumes "messages reqBody = Some msgs"
    and "resolveApiConfig env
           (findCustomModel (configSettings reqBody) (requestedModel (configSettings reqBody)))
           (requestedModel (configSettings reqBody)) = Continue cfg"
  shows "handle sdk env reqBody
           = respond sdk
               (findCustomModel (configSettings reqBody) (requestedModel (configSettings reqBody)))
               (requestedModel (configSettings reqBody))
               (requestedPrompt (configSettings reqBody)) msgs cfg"
  using assms by (simp add: handle_def Let_def)

lemma find_map_name:
  "find (\<lambda>m. name m = n) (map eraseModelPath ms)
     = map_option eraseModelPath (find (\<lambda>m. name m = n) ms)"
  by (induction ms) (simp_all add: eraseModelPath_def)

lemma findCustomModel_erase:
  "findCustomModel (configSettings (erasePaths reqBody)) model
     = map_option eraseModelPath (findCustomModel (configSettings reqBody) model)"
proof (cases "configSettings reqBody")
  case None
  then show ?thesis by (simp add: erasePaths_def findCustomModel_def)
next
  case (Some cs)
  then show ?thesis
    by (cases "customModels cs") (simp_all add: erasePaths_def findCustomModel_def find_map_name)
qed

lemma requested_erase:
  "requestedModel (configSettings (erasePaths reqBody)) = requestedModel (configSettings reqBody)"
  "requestedPrompt (configSettings (erasePaths reqBody)) = requestedPrompt (configSettings reqBody)"
  "messages (erasePaths reqBody) = messages reqBody"
  by (cases "configSettings reqBody"; simp add: erasePaths_def requestedModel_def requestedPrompt_def)+

lemma selectAdapter_erase:
  "selectAdapter (map_option eraseModelPath customModel) model = selectAdapter customModel model"
  by (cases customModel) (simp_all add: selectAdapter_def eraseModelPath_def)

lemma respond_path:
  "respond sdk (map_option eraseModelPath customModel) model prompt msgs (cfg\<lparr>path := p\<rparr>)
     = respond sdk customModel model prompt msgs cfg"
  by (simp add: respond_def selectAdapter_erase)

lemma resolve_erase:
  "resolveApiConfig env (map_option eraseModelPath customModel) model
     = (case resolveApiConfig env customModel model of
          Continue cfg \<Rightarrow>
            Continue (cfg\<lparr>path := (case customModel of
                                       None \<Rightarrow> path cfg
                                     | Some cm \<Rightarrow> Some (asc ''/v1/chat/completions''))\<rparr>)
        | Return r \<Rightarrow> Return r
        | Throw \<Rightarrow> Throw)"
proof (cases customModel)
  case None
  then show ?thesis by (simp add: resolveApiConfig_def)
next
  case (Some cm)
  show ?thesis
  proof (cases "apiConfig cm")
    case None
    with Some show ?thesis by (simp add: resolveApiConfig_def eraseModelPath_def)
  next
    case (Some ac)
    with \<open>customModel = Some cm\<close> show ?thesis
      by (simp add: resolveApiConfig_def eraseModelPath_def Let_def orElse_def)
  qed
qed

lemma handle_erasePaths: "handle sdk env (erasePaths reqBody) = handle sdk env reqBody"
proof (cases "messages reqBody")
  case None
  then show ?thesis by (simp add: handle_def requested_erase)
next
  case (Some msgs)
  let ?model = "requestedModel (configSettings reqBody)"
  let ?cm = "findCustomModel (configSettings reqBody) ?model"
  show ?thesis
  proof (cases "resolveApiConfig env ?cm ?model")
    case (Continue cfg)
    with Some show ?thesis
      by (simp add: handle_def Let_def requested_erase findCustomModel_erase resolve_erase
          respond_path)
  next
    case (Return r)
    with Some show ?thesis
      by (simp add: handle_def Let_def requested_erase findCustomModel_erase resolve_erase)
  next
    case Throw
    with Some show ?thesis
      by (simp add: handle_def Let_def requested_erase findCustomModel_erase resolve_erase)
  qed
qed

lemma POST_erasePaths: "POST sdk env (Some (erasePaths reqBody)) = POST sdk env (Some reqBody)"
  by (simp add: POST_def handle_erasePaths)

lemma xRequest_model:
  "requestedModel (configSettings (xRequest config providerName)) = asc ''claude-x''"
  by (simp add: xRequest_def requestedModel_def orElse_def asc_def)

lemma xRequest_custom:
  "findCustomModel (configSettings (xRequest config providerName)) (asc ''claude-x'')
     = Some \<lparr>name = Some (asc ''claude-x''), provider = providerName,
             entryModelType = Some (asc ''x''), apiConfig = config\<rparr>"
  by (simp add: xRequest_def findCustomModel_def)

lemma anthropicRequest_model:
  "requestedModel (configSettings anthropicRequest) = asc ''anthropic-x''"
  by (simp add: anthropicRequest_def requestedModel_def orElse_def asc_def)

lemma anthropicRequest_custom:
  "findCustomModel (configSettings anthropicRequest) model = None"
  by (simp add: anthropicRequest_def findCustomModel_def)

lemma anthropicRequest_config:
  "builtInConfig envOpenAI (asc ''anthropic-x'') =
     \<lparr>domain = Some (asc ''https://api.openai.com''),
      path = Some (asc ''/v1/chat/completions''),
      key = Some (asc ''sk-test'')\<rparr>"
proof -
  have "asc ''anthropic-x'' \<noteq> asc ''gpt-4o''" "asc ''anthropic-x'' \<noteq> asc ''claude-3-opus''"
    "asc ''anthropic-x'' \<noteq> asc ''deepseek-chat''" "asc ''anthropic-x'' \<notin> set objectPrototypeNames"
    by (simp_all add: asc_def objectPrototypeNames_def)
  moreover have "orElse (envOpenAI (asc ''OPENAI_API_KEY'')) [] = asc ''sk-test''"
    by (simp add: envOpenAI_def orElse_def asc_def)
  ultimately show ?thesis
    by (simp add: builtInConfig_def gpt4oConfig_def)
qed












text \<open>
  C7. Take a request that has its \<open>messages\<close> and whose settings hold a custom model named as
  the requested model identifier, the only entry of that name (names identify the
  entries of a configuration), with the key \<open>OPENROUTER_API_KEY_PLACEHOLDER\<close>. Where
  the environment variable \<open>OPENROUTER_API_KEY\<close> is unset (or empty), resolution ends
  with the response of status 400 whose message names the variable and points to the
  settings page (U+8BBE U+7F6E U+9875 U+9762); the handler answers with it and calls no
  provider package. Where the variable has a value, \<open>sk-test\<close> for one, that value is
  the resolved key, and the adapter is built with it.
\<close>

theorem POST_placeholder_key:
  assumes "messages reqBody = Some msgs"
    and "configSettings reqBody = Some cs"
    and "customModels cs = Some ms"
    and "cm \<in> set ms"
    and "name cm = Some (requestedModel (Some cs))"
    and "\<forall>m \<in> set ms. name m = name cm \<longrightarrow> m = cm"
    and "apiConfig cm = Some ac"
    and "key ac = Some (asc ''OPENROUTER_API_KEY_PLACEHOLDER'')"
  shows "(env (asc ''OPENROUTER_API_KEY'') = None \<or> env (asc ''OPENROUTER_API_KEY'') = Some []
            \<longrightarrow> resolveApiConfig env (Some cm) (requestedModel (Some cs))
                  = Return (errorResponse 400 openRouterEnvMessage)
                \<and> POST sdk env (Some reqBody) = (errorResponse 400 openRouterEnvMessage, []))
         \<and> status (errorResponse 400 openRouterEnvMessage) = 400
         \<and> body (errorResponse 400 openRouterEnvMessage) = Json_error openRouterEnvMessage
         \<and> sublist (asc ''OPENROUTER_API_KEY'') openRouterEnvMessage
         \<and> sublist [0x8BBE, 0x7F6E, 0x9875, 0x9762] openRouterEnvMessage
         \<and> (\<forall>v. env (asc ''OPENROUTER_API_KEY'') = Some v \<and> v \<noteq> [] \<longrightarrow>
               resolveApiConfig env (Some cm) (requestedModel (Some cs))
                 = Continue \<lparr>domain = Some (orElse (domain ac) (asc ''https://api.openai.com'')),
                             path = Some (orElse (path ac) (asc ''/v1/chat/completions'')),
                             key = Some v\<rparr>
               \<and> hd (snd (POST sdk env (Some reqBody)))
                   = CreateProvider (selectAdapter (Some cm) (requestedModel (Some cs))) (Some v)
                       (Some (orElse (domain ac) (asc ''https://api.openai.com''))))"
proof -
  let ?model = "requestedModel (Some cs)"
  have "find (\<lambda>m. name m = Some ?model) ms = Some cm"
  proof (rule find_unique)
    show "cm \<in> set ms" by (rule assms(4))
    show "name cm = Some ?model" by (rule assms(5))
    show "\<forall>m \<in> set ms. name m = Some ?model \<longrightarrow> m = cm"
      using assms(5,6) by simp
  qed
  then have found: "findCustomModel (Some cs) ?model = Some cm"
    using assms(3) by (simp add: findCustomModel_def)
  have ph: "asc ''OPENROUTER_API_KEY_PLACEHOLDER'' \<noteq> []"
    by (simp add: asc_def)
  have unset: "env (asc ''OPENROUTER_API_KEY'') = None \<or> env (asc ''OPENROUTER_API_KEY'') = Some []
            \<longrightarrow> resolveApiConfig env (Some cm) ?model
                  = Return (errorResponse 400 openRouterEnvMessage)
                \<and> POST sdk env (Some reqBody) = (errorResponse 400 openRouterEnvMessage, [])"
    using assms(1,2,7,8) found ph
    by (auto simp: POST_def handle_def resolveApiConfig_def Let_def orElse_def falsy_def)
  have naming: "sublist (asc ''OPENROUTER_API_KEY'') openRouterEnvMessage"
    unfolding openRouterEnvMessage_def
    by (rule sublist_order.order_trans [OF _ sublist_appendI [of _ "[0x672A, 0x8BBE, 0x7F6E]"]]) simp
  have ui: "sublist [0x8BBE, 0x7F6E, 0x9875, 0x9762] openRouterEnvMessage"
    by (simp add: openRouterEnvMessage_def asc_def sublist_code)
  have set: "\<forall>v. env (asc ''OPENROUTER_API_KEY'') = Some v \<and> v \<noteq> [] \<longrightarrow>
               resolveApiConfig env (Some cm) ?model
                 = Continue \<lparr>domain = Some (orElse (domain ac) (asc ''https://api.openai.com'')),
                             path = Some (orElse (path ac) (asc ''/v1/chat/completions'')),
                             key = Some v\<rparr>
               \<and> hd (snd (POST sdk env (Some reqBody)))
                   = CreateProvider (selectAdapter (Some cm) ?model) (Some v)
                       (Some (orElse (domain ac) (asc ''https://api.openai.com'')))"
  proof (intro allI impI)
    fix v
    assume v: "env (asc ''OPENROUTER_API_KEY'') = Some v \<and> v \<noteq> []"
    have r: "resolveApiConfig env (Some cm) ?model
                 = Continue \<lparr>domain = Some (orElse (domain ac) (asc ''https://api.openai.com'')),
                             path = Some (orElse (path ac) (asc ''/v1/chat/completions'')),
                             key = Some v\<rparr>"
      using assms(7,8) v ph by (simp add: resolveApiConfig_def Let_def orElse_def falsy_def)
    have "snd (POST sdk env (Some reqBody))
            = snd (respond sdk (Some cm) ?model (requestedPrompt (Some cs)) msgs
                \<lparr>domain = Some (orElse (domain ac) (asc ''https://api.openai.com'')),
                 path = Some (orElse (path ac) (asc ''/v1/chat/completions'')),
                 key = Some v\<rparr>)"
      using assms(1,2) found r
      by (simp add: POST_def handle_def Let_def split: prod.splits option.splits)
    with v r show "resolveApiConfig env (Some cm) ?model
                 = Continue \<lparr>domain = Some (orElse (domain ac) (asc ''https://api.openai.com'')),
                             path = Some (orElse (path ac) (asc ''/v1/chat/completions'')),
                             key = Some v\<rparr>
               \<and> hd (snd (POST sdk env (Some reqBody)))
                   = CreateProvider (selectAdapter (Some cm) ?model) (Some v)
                       (Some (orElse (domain ac) (asc ''https://api.openai.com'')))"
      by (simp add: respond_key_present)
  qed
  from unset naming ui set show ?thesis
    by (simp add: errorResponse_def)
qed

theorem POST_placeholder_key_witness:
  "POST sdk0 env0
     (Some (xRequest (Some \<lparr>domain = None, path = None,
                            key = Some (asc ''OPENROUTER_API_KEY_PLACEHOLDER'')\<rparr>) None))
     = (errorResponse 400 openRouterEnvMessage, [])
   \<and> hd (snd (POST sdk0 envTest
        (Some (xRequest (Some \<lparr>domain = None, path = None,
                               key = Some (asc ''OPENROUTER_API_KEY_PLACEHOLDER'')\<rparr>) None))))
     = CreateProvider OpenAI (Some (asc ''sk-test'')) (Some (asc ''https://api.openai.com''))"
proof -
  let ?ac = "\<lparr>domain = None, path = None, key = Some (asc ''OPENROUTER_API_KEY_PLACEHOLDER'')\<rparr>"
  let ?req = "xRequest (Some ?ac) None"
  let ?cm = "\<lparr>name = Some (asc ''claude-x''), provider = None,
             entryModelType = Some (asc ''x''), apiConfig = Some ?ac\<rparr>"
  let ?cs = "\<lparr>modelType = Some (asc ''claude-x''), systemPrompt = None,
             customModels = Some [?cm]\<rparr>"
  have a1: "messages ?req = Some (MessageList [(asc ''user'', asc ''draw a circle'')])"
    by (simp add: xRequest_def)
  have a2: "configSettings ?req = Some ?cs"
    by (simp add: xRequest_def)
  have a3: "customModels ?cs = Some [?cm]"
    by simp
  have a4: "?cm \<in> set [?cm]"
    by simp
  have m: "requestedModel (Some ?cs) = asc ''claude-x''"
    by (simp add: requestedModel_def orElse_def asc_def)
  have a5: "name ?cm = Some (requestedModel (Some ?cs))"
    unfolding m by simp
  have a6: "\<forall>m \<in> set [?cm]. name m = name ?cm \<longrightarrow> m = ?cm"
    by simp
  have a7: "apiConfig ?cm = Some ?ac"
    by simp
  have a8: "key ?ac = Some (asc ''OPENROUTER_API_KEY_PLACEHOLDER'')"
    by simp
  note th = POST_placeholder_key [OF a1 a2 a3 a4 a5 a6 a7 a8]
  have e0: "env0 (asc ''OPENROUTER_API_KEY'') = None"
    by (simp add: env0_def)
  have e1: "envTest (asc ''OPENROUTER_API_KEY'') = Some (asc ''sk-test'') \<and> asc ''sk-test'' \<noteq> []"
    by (simp add: envTest_def asc_def)
  have 1: "POST sdk0 env0 (Some ?req) = (errorResponse 400 openRouterEnvMessage, [])"
    using th [where env = env0 and sdk = sdk0, THEN conjunct1] e0 by simp
  have "hd (snd (POST sdk0 envTest (Some ?req)))
      = CreateProvider (selectAdapter (Some ?cm) (requestedModel (Some ?cs)))
          (Some (asc ''sk-test'')) (Some (orElse (domain ?ac) (asc ''https://api.openai.com'')))"
    using th [where env = envTest and sdk = sdk0] e1 by blast
  then have 2: "hd (snd (POST sdk0 envTest (Some ?req)))
      = CreateProvider OpenAI (Some (asc ''sk-test'')) (Some (asc ''https://api.openai.com''))"
    by (simp add: selectAdapter_def orElse_def)
  from 1 2 show ?thesis
    by (intro conjI)
qed

text \<open>
  C8, as the claim states it, at the identifier \<open>anthropic-x\<close> with no custom model
  and the OpenAI key set: the identifier begins with the name of the provider Anthropic,
  and the adapter that is built is the OpenAI-compatible one.
\<close>

theorem POST_adapter_selection_counterexample:
  "findCustomModel (configSettings anthropicRequest)
     (requestedModel (configSettings anthropicRequest)) = None
   \<and> prefix (asc ''anthropic'') (requestedModel (configSettings anthropicRequest))
   \<and> constructedAdapter (snd (POST sdk0 envOpenAI (Some anthropicRequest))) = Some OpenAI"
proof -
  let ?cfg = "\<lparr>domain = Some (asc ''https://api.openai.com''),
              path = Some (asc ''/v1/chat/completions''), key = Some (asc ''sk-test'')\<rparr>"
  have p: "prefix (asc ''anthropic'') (asc ''anthropic-x'')"
    by (simp add: asc_def)
  have msgs: "messages anthropicRequest = Some (MessageList [(asc ''user'', asc ''draw a circle'')])"
    by (simp add: anthropicRequest_def)
  have r: "resolveApiConfig envOpenAI None (asc ''anthropic-x'') = Continue ?cfg"
    by (simp add: resolveApiConfig_def anthropicRequest_config)
  have h: "handle sdk0 envOpenAI anthropicRequest
      = respond sdk0 None (asc ''anthropic-x'') (requestedPrompt (configSettings anthropicRequest))
          (MessageList [(asc ''user'', asc ''draw a circle'')]) ?cfg"
    using handle_Continue [OF msgs, of envOpenAI ?cfg sdk0] r
    by (simp add: anthropicRequest_model anthropicRequest_custom)
  have k: "asc ''sk-test'' \<noteq> []"
    by (simp add: asc_def)
  have ne: "snd (handle sdk0 envOpenAI anthropicRequest) \<noteq> []"
    unfolding h using k by (intro respond_calls_nonempty [of _ "asc ''sk-test''"]) simp_all
  have s: "selectAdapter None (asc ''anthropic-x'') = OpenAI"
    by (simp add: selectAdapter_def asc_def)
  from handle_adapter [OF ne] have
    "constructedAdapter (snd (POST sdk0 envOpenAI (Some anthropicRequest))) = Some OpenAI"
    by (simp add: POST_calls anthropicRequest_model anthropicRequest_custom s)
  with p show ?thesis
    by (simp add: anthropicRequest_model anthropicRequest_custom)
qed

text \<open>
  C8, amended. Whenever the handler builds an adapter: if a custom model entry matches
  the identifier, its \<open>provider\<close> field alone decides (\<open>anthropic\<close> the Anthropic adapter,
  \<open>deepseek\<close> the DeepSeek adapter, anything else or nothing the OpenAI-compatible one),
  whatever the identifier begins with; if none matches, an identifier that begins with
  \<open>claude\<close> gives the Anthropic adapter, one that begins with \<open>deepseek\<close> the DeepSeek
  adapter and every other one the OpenAI-compatible adapter.
\<close>

theorem POST_adapter_selection:
  assumes "POST sdk env (Some reqBody) = (resp, calls)"
    and "calls \<noteq> []"
    and "model = requestedModel (configSettings reqBody)"
    and "customModel = findCustomModel (configSettings reqBody) model"
  shows "(\<forall>cm. customModel = Some cm \<and> provider cm = Some (asc ''anthropic'')
            \<longrightarrow> constructedAdapter calls = Some Anthropic)
       \<and> (\<forall>cm. customModel = Some cm \<and> provider cm = Some (asc ''deepseek'')
            \<longrightarrow> constructedAdapter calls = Some DeepSeek)
       \<and> (\<forall>cm. customModel = Some cm \<and> provider cm \<noteq> Some (asc ''anthropic'')
                \<and> provider cm \<noteq> Some (asc ''deepseek'')
            \<longrightarrow> constructedAdapter calls = Some OpenAI)
       \<and> (customModel = None \<and> prefix (asc ''claude'') model
            \<longrightarrow> constructedAdapter calls = Some Anthropic)
       \<and> (customModel = None \<and> prefix (asc ''deepseek'') model
            \<longrightarrow> constructedAdapter calls = Some DeepSeek)
       \<and> (customModel = None \<and> \<not> prefix (asc ''claude'') model \<and> \<not> prefix (asc ''deepseek'') model
            \<longrightarrow> constructedAdapter calls = Some OpenAI)"
proof -
  from assms(1) have "calls = snd (handle sdk env reqBody)"
    using POST_calls [of sdk env reqBody] by simp
  with assms(2,3,4) have sel: "constructedAdapter calls = Some (selectAdapter customModel model)"
    by (simp add: handle_adapter)
  have ad: "asc ''anthropic'' \<noteq> asc ''deepseek''"
    by (simp add: asc_def)
  have cd: "prefix (asc ''deepseek'') model \<Longrightarrow> \<not> prefix (asc ''claude'') model"
    by (cases model) (auto simp: asc_def)
  show ?thesis
    unfolding sel using ad cd by (auto simp: selectAdapter_def)
qed

theorem POST_adapter_selection_witness:
  "constructedAdapter
     (snd (POST sdk0 env0
        (Some (xRequest (Some \<lparr>domain = None, path = None, key = Some (asc ''k'')\<rparr>)
                 (Some (asc ''deepseek''))))))
   = Some DeepSeek"
proof -
  let ?req = "xRequest (Some \<lparr>domain = None, path = None, key = Some (asc ''k'')\<rparr>)
                 (Some (asc ''deepseek''))"
  let ?cm = "\<lparr>name = Some (asc ''claude-x''), provider = Some (asc ''deepseek''),
             entryModelType = Some (asc ''x''),
             apiConfig = Some \<lparr>domain = None, path = None, key = Some (asc ''k'')\<rparr>\<rparr>"
  let ?cfg = "\<lparr>domain = Some (asc ''https://api.openai.com''),
              path = Some (asc ''/v1/chat/completions''), key = Some (asc ''k'')\<rparr>"
  have k: "asc ''k'' \<noteq> []" "asc ''k'' \<noteq> asc ''OPENROUTER_API_KEY_PLACEHOLDER''"
    by (simp_all add: asc_def)
  have r: "resolveApiConfig env0 (Some ?cm) (asc ''claude-x'') = Continue ?cfg"
    using k by (simp add: resolveApiConfig_def Let_def orElse_def)
  have msgs: "messages ?req = Some (MessageList [(asc ''user'', asc ''draw a circle'')])"
    by (simp add: xRequest_def)
  have h: "handle sdk0 env0 ?req
      = respond sdk0 (Some ?cm) (asc ''claude-x'') (requestedPrompt (configSettings ?req))
          (MessageList [(asc ''user'', asc ''draw a circle'')]) ?cfg"
    using handle_Continue [OF msgs, of env0 ?cfg sdk0] r
    by (simp add: xRequest_model xRequest_custom)
  have ne: "snd (POST sdk0 env0 (Some ?req)) \<noteq> []"
    unfolding POST_calls h using k(1) by (intro respond_calls_nonempty [of _ "asc ''k''"]) simp_all
  have p: "POST sdk0 env0 (Some ?req) = (fst (POST sdk0 env0 (Some ?req)), snd (POST sdk0 env0 (Some ?req)))"
    by simp
  from POST_adapter_selection [OF p ne refl refl] show ?thesis
    by (simp add: xRequest_model xRequest_custom)
qed

text \<open>
  C9. For every request that selects a custom model entry with no \<open>apiConfig\<close>, the
  handler throws on reading the key and the outer \<open>catch\<close> answers with status 500 and
  its fixed message, not with status 400; no provider package is called.
\<close>

theorem POST_custom_without_apiConfig:
  assumes "findCustomModel (configSettings reqBody) (requestedModel (configSettings reqBody))
             = Some cm"
    and "apiConfig cm = None"
  shows "POST sdk env (Some reqBody) = (errorResponse 500 requestFailedMessage, [])
         \<and> status (fst (POST sdk env (Some reqBody))) = 500"
proof -
  have r: "resolveApiConfig env (Some cm) (requestedModel (configSettings reqBody)) = Throw"
    using assms(2) by (simp add: resolveApiConfig_def)
  have "handle sdk env reqBody = (None, [])"
  proof (cases "messages reqBody")
    case None
    then show ?thesis by (simp add: handle_def)
  next
    case (Some msgs)
    then show ?thesis by (simp add: handle_def Let_def assms(1) r)
  qed
  then have "POST sdk env (Some reqBody) = (errorResponse 500 requestFailedMessage, [])"
    by (simp add: POST_def)
  then show ?thesis
    by (simp add: errorResponse_def)
qed

theorem POST_custom_without_apiConfig_witness:
  "POST sdk0 env0 (Some (xRequest None None)) = (errorResponse 500 requestFailedMessage, [])"
proof -
  have m: "requestedModel (configSettings (xRequest None None)) = asc ''claude-x''"
    by (simp add: xRequest_def requestedModel_def orElse_def asc_def)
  have "findCustomModel (configSettings (xRequest None None))
          (requestedModel (configSettings (xRequest None None)))
        = Some \<lparr>name = Some (asc ''claude-x''), provider = None,
             entryModelType = Some (asc ''x''), apiConfig = None\<rparr>"
    unfolding m by (simp add: xRequest_def findCustomModel_def)
  from POST_custom_without_apiConfig [OF this, of sdk0 env0] show ?thesis
    by simp
qed

text \<open>
  C10. Two requests that are equal once the \<open>path\<close> of every custom model's \<open>apiConfig\<close>
  is erased get the same response and cause the same calls, with any provider packages
  and any environment. And from the resolved \<open>apiConfig\<close> on, the handler's result does
  not depend on its \<open>path\<close>, whatever it is (a custom model's or a preset's): only the key
  and the domain reach the adapter.
\<close>

theorem POST_ignores_path:
  "(erasePaths reqBody = erasePaths reqBody'
      \<longrightarrow> POST sdk env (Some reqBody) = POST sdk env (Some reqBody'))
   \<and> respond sdk customModel model prompt msgs (cfg\<lparr>path := p\<rparr>)
       = respond sdk customModel model prompt msgs cfg"
proof (intro conjI impI)
  assume "erasePaths reqBody = erasePaths reqBody'"
  then have "POST sdk env (Some (erasePaths reqBody)) = POST sdk env (Some (erasePaths reqBody'))"
    by simp
  then show "POST sdk env (Some reqBody) = POST sdk env (Some reqBody')"
    by (simp only: POST_erasePaths)
next
  show "respond sdk customModel model prompt msgs (cfg\<lparr>path := p\<rparr>)
       = respond sdk customModel model prompt msgs cfg"
    by (simp add: respond_def)
qed

theorem POST_ignores_path_witness:
  "POST sdk0 env0
     (Some (xRequest (Some \<lparr>domain = None, path = Some (asc ''/a''), key = Some (asc ''k'')\<rparr>) None))
   = POST sdk0 env0
     (Some (xRequest (Some \<lparr>domain = None, path = Some (asc ''/b''), key = Some (asc ''k'')\<rparr>) None))"
  using POST_ignores_path
    [of "xRequest (Some \<lparr>domain = None, path = Some (asc ''/a''), key = Some (asc ''k'')\<rparr>) None"
        "xRequest (Some \<lparr>domain = None, path = Some (asc ''/b''), key = Some (asc ''k'')\<rparr>) None"
        sdk0 env0]
  by (simp add: erasePaths_def xRequest_def eraseModelPath_def)

end
